theory Spec2Isabelle
  imports Main "HOL-Library.Word" "HOL-Library.Monad_Syntax"
begin

unbundle bit_operations_syntax

section \<open>The free physical slot page of EliasDB (pageview/freephysicalslotpage.go)\<close>

text \<open>
  A shallow embedding of \<^verbatim>\<open>FreePhysicalSlotPage\<close>. Go's fixed-width unsigned integers are
  words (\<open>uint16\<close> is \<open>16 word\<close>, \<open>uint32\<close> is \<open>32 word\<close>), so \<open>+\<close>, \<open>-\<close> and \<open>*\<close> wrap
  around as they do in Go. Go's \<open>int\<close> (the result of \<^verbatim>\<open>FindSlot\<close> and
  \<^verbatim>\<open>FirstFreeSlotInfo\<close>, and the positions handed to the record) is 64 bits wide on the
  platforms the database runs on; every value computed here lies between \<open>- 2 ^ 32\<close> and
  \<open>2 ^ 32\<close>, so it is modelled by \<open>int\<close> and \<open>nat\<close> without wrap-around. A run-time panic
  (index out of range) is the result \<open>None\<close>; the methods mutate the page in place, the
  model returns the page after the call.
\<close>

type_synonym byte = "8 word"
type_synonym uint16 = "16 word"
type_synonym uint32 = "32 word"
type_synonym uint64 = "64 word"

subsection \<open>Constants of the packages view, file and util\<close>

text \<open>
  The packages \<^verbatim>\<open>view\<close>, \<^verbatim>\<open>file\<close> and \<^verbatim>\<open>util\<close> are imported by the page and defined
  elsewhere in the repository. Their constants are parameters of the model, collected in one
  record: \<^verbatim>\<open>view.OFFSET_DATA\<close>, \<^verbatim>\<open>util.LOCATION_SIZE\<close>, \<^verbatim>\<open>util.SIZE_INFO_SIZE\<close>,
  \<^verbatim>\<open>util.MAX_AVAILABLE_SIZE_DIFFERENCE\<close>, the sum
  \<^verbatim>\<open>view.VIEW_PAGE_HEADER+view.TYPE_FREE_PHYSICAL_SLOT_PAGE\<close> (the bits of the \<open>int16\<close> the
  magic number is compared with) and the function \<^verbatim>\<open>util.PackLocation\<close>.
\<close>

record env =
  view_OFFSET_DATA :: nat
  util_LOCATION_SIZE :: nat
  util_SIZE_INFO_SIZE :: nat
  util_MAX_AVAILABLE_SIZE_DIFFERENCE :: nat
  view_PAGE_MAGIC :: uint16
  util_PackLocation :: "uint64 \<Rightarrow> uint16 \<Rightarrow> uint64"

text \<open>Modelled from the spec: \<^verbatim>\<open>file.SIZE_SHORT\<close>, the width in bytes of the 16-bit row count.\<close>

definition SIZE_SHORT :: nat where
  "SIZE_SHORT = 2"

definition OFFSET_COUNT :: "env \<Rightarrow> nat" where
  "OFFSET_COUNT E = view_OFFSET_DATA E"

definition OFFSET_DATA :: "env \<Rightarrow> nat" where
  "OFFSET_DATA E = OFFSET_COUNT E + SIZE_SHORT"

definition SLOT_INFO_SIZE :: "env \<Rightarrow> nat" where
  "SLOT_INFO_SIZE E = util_LOCATION_SIZE E + util_SIZE_INFO_SIZE E"

definition OPTIMAL_WASTE_MARGIN :: uint32 where
  "OPTIMAL_WASTE_MARGIN = 128"

subsection \<open>The backing record\<close>

text \<open>
  Modelled from the spec: \<^verbatim>\<open>file.Record\<close>, which is defined in the package file. The
  spec describes it as a fixed-size byte buffer with typed reads and writes of 16-bit
  and 32-bit integers at a byte offset. The model is the buffer as a list of bytes; an
  integer occupies consecutive bytes, most significant byte first, and an access that
  does not lie inside the buffer panics. The writes never change the length of the
  buffer. \<^verbatim>\<open>WriteUInt64\<close> is the 64-bit write through which the slot-record primitive
  stores a packed location.
\<close>

definition get16 :: "byte list \<Rightarrow> nat \<Rightarrow> uint16" where
  "get16 d pos = push_bit 8 (ucast (d ! pos)) OR ucast (d ! (pos + 1))"

definition put16 :: "byte list \<Rightarrow> nat \<Rightarrow> uint16 \<Rightarrow> byte list" where
  "put16 d pos v = d[pos := ucast (drop_bit 8 v), pos + 1 := ucast v]"

definition get32 :: "byte list \<Rightarrow> nat \<Rightarrow> uint32" where
  "get32 d pos =
     push_bit 24 (ucast (d ! pos)) OR push_bit 16 (ucast (d ! (pos + 1))) OR
     push_bit 8 (ucast (d ! (pos + 2))) OR ucast (d ! (pos + 3))"

definition put32 :: "byte list \<Rightarrow> nat \<Rightarrow> uint32 \<Rightarrow> byte list" where
  "put32 d pos v =
     d[pos := ucast (drop_bit 24 v), pos + 1 := ucast (drop_bit 16 v),
       pos + 2 := ucast (drop_bit 8 v), pos + 3 := ucast v]"

definition get64 :: "byte list \<Rightarrow> nat \<Rightarrow> uint64" where
  "get64 d pos =
     push_bit 56 (ucast (d ! pos)) OR push_bit 48 (ucast (d ! (pos + 1))) OR
     push_bit 40 (ucast (d ! (pos + 2))) OR push_bit 32 (ucast (d ! (pos + 3))) OR
     push_bit 24 (ucast (d ! (pos + 4))) OR push_bit 16 (ucast (d ! (pos + 5))) OR
     push_bit 8 (ucast (d ! (pos + 6))) OR ucast (d ! (pos + 7))"

definition put64 :: "byte list \<Rightarrow> nat \<Rightarrow> uint64 \<Rightarrow> byte list" where
  "put64 d pos v =
     d[pos := ucast (drop_bit 56 v), pos + 1 := ucast (drop_bit 48 v),
       pos + 2 := ucast (drop_bit 40 v), pos + 3 := ucast (drop_bit 32 v),
       pos + 4 := ucast (drop_bit 24 v), pos + 5 := ucast (drop_bit 16 v),
       pos + 6 := ucast (drop_bit 8 v), pos + 7 := ucast v]"

text \<open>Modelled from the spec: \<^verbatim>\<open>ReadUInt16\<close> of \<^verbatim>\<open>file.Record\<close>, a read of 16 bits at a position.\<close>

definition ReadUInt16 :: "byte list \<Rightarrow> nat \<Rightarrow> uint16 option" where
  "ReadUInt16 d pos = (if pos + 2 \<le> length d then Some (get16 d pos) else None)"

text \<open>Modelled from the spec: \<^verbatim>\<open>WriteUInt16\<close> of \<^verbatim>\<open>file.Record\<close>, a write of 16 bits at a position.\<close>

definition WriteUInt16 :: "byte list \<Rightarrow> nat \<Rightarrow> uint16 \<Rightarrow> byte list option" where
  "WriteUInt16 d pos v = (if pos + 2 \<le> length d then Some (put16 d pos v) else None)"

text \<open>Modelled from the spec: \<^verbatim>\<open>ReadUInt32\<close> of \<^verbatim>\<open>file.Record\<close>, a read of 32 bits at a position.\<close>

definition ReadUInt32 :: "byte list \<Rightarrow> nat \<Rightarrow> uint32 option" where
  "ReadUInt32 d pos = (if pos + 4 \<le> length d then Some (get32 d pos) else None)"

text \<open>Modelled from the spec: \<^verbatim>\<open>WriteUInt32\<close> of \<^verbatim>\<open>file.Record\<close>, a write of 32 bits at a position.\<close>

definition WriteUInt32 :: "byte list \<Rightarrow> nat \<Rightarrow> uint32 \<Rightarrow> byte list option" where
  "WriteUInt32 d pos v = (if pos + 4 \<le> length d then Some (put32 d pos v) else None)"

text \<open>Modelled from the spec: \<^verbatim>\<open>ReadUInt64\<close> of \<^verbatim>\<open>file.Record\<close>, a read of 64 bits at a position.\<close>

definition ReadUInt64 :: "byte list \<Rightarrow> nat \<Rightarrow> uint64 option" where
  "ReadUInt64 d pos = (if pos + 8 \<le> length d then Some (get64 d pos) else None)"

text \<open>Modelled from the spec: \<^verbatim>\<open>WriteUInt64\<close> of \<^verbatim>\<open>file.Record\<close>, a write of 64 bits at a position.\<close>

definition WriteUInt64 :: "byte list \<Rightarrow> nat \<Rightarrow> uint64 \<Rightarrow> byte list option" where
  "WriteUInt64 d pos v = (if pos + 8 \<le> length d then Some (put64 d pos v) else None)"

subsection \<open>The page\<close>

text \<open>
  The struct \<^verbatim>\<open>FreePhysicalSlotPage\<close>. The embedded \<^verbatim>\<open>*SlotInfoPage\<close> contributes the
  backing record, of which the model keeps the bytes.
\<close>

record FreePhysicalSlotPage =
  Record :: "byte list"
  maxSlots :: uint16
  maxAcceptableWaste :: uint32
  sizeCache :: "uint32 list"

text \<open>
  \<^verbatim>\<open>checkFreePhysicalSlotPageMagic\<close>: the 16 bits at position 0 are compared with the page
  type; the function panics on a mismatch.
\<close>

definition checkFreePhysicalSlotPageMagic :: "env \<Rightarrow> byte list \<Rightarrow> bool option" where
  "checkFreePhysicalSlotPageMagic E record = do {
     magic \<leftarrow> ReadUInt16 record 0;
     if magic = view_PAGE_MAGIC E then Some True else None
   }"

text \<open>
  \<^verbatim>\<open>NewFreePhysicalSlotPage\<close>. The division is Go's division of \<open>int\<close>, which truncates
  towards zero; a negative number of slots makes \<^verbatim>\<open>make\<close> panic. The conversions to
  \<open>uint16\<close> and \<open>uint32\<close> keep the low bits.
\<close>

definition NewFreePhysicalSlotPage :: "env \<Rightarrow> byte list \<Rightarrow> FreePhysicalSlotPage option" where
  "NewFreePhysicalSlotPage E record = do {
     _ \<leftarrow> checkFreePhysicalSlotPageMagic E record;
     let n = int (length record) - int (OFFSET_DATA E);
         maxSlots = sgn n * (\<bar>n\<bar> div int (SLOT_INFO_SIZE E));
         maxAcceptableWaste = length record div 4
     in if maxSlots < 0 then None
        else Some \<lparr>Record = record, maxSlots = word_of_int maxSlots,
                   maxAcceptableWaste = of_nat maxAcceptableWaste,
                   sizeCache = replicate (nat maxSlots) 0\<rparr>
   }"

definition MaxSlots :: "FreePhysicalSlotPage \<Rightarrow> uint16" where
  "MaxSlots fpsp = maxSlots fpsp"

definition FreeSlotCount :: "env \<Rightarrow> FreePhysicalSlotPage \<Rightarrow> uint16 option" where
  "FreeSlotCount E fpsp = ReadUInt16 (Record fpsp) (OFFSET_COUNT E)"

text \<open>\<^verbatim>\<open>slotinfoToOffset\<close> and \<^verbatim>\<open>offsetToSlotinfo\<close> compute in \<open>uint16\<close>.\<close>

definition slotinfoToOffset :: "env \<Rightarrow> uint16 \<Rightarrow> uint16" where
  "slotinfoToOffset E slotinfo = of_nat (OFFSET_DATA E) + slotinfo * of_nat (SLOT_INFO_SIZE E)"

definition offsetToSlotinfo :: "env \<Rightarrow> uint16 \<Rightarrow> uint16" where
  "offsetToSlotinfo E offset = (offset - of_nat (OFFSET_DATA E)) div of_nat (SLOT_INFO_SIZE E)"

text \<open>
  \<^verbatim>\<open>FreeSlotSize\<close>: the index into the cache is checked (a slice access), the size is
  read from the record when the cached value is 0, and the cache keeps what was read.
\<close>

definition FreeSlotSize ::
  "env \<Rightarrow> FreePhysicalSlotPage \<Rightarrow> uint16 \<Rightarrow> (uint32 \<times> FreePhysicalSlotPage) option" where
  "FreeSlotSize E fpsp offset =
     (let slotinfo = unat (offsetToSlotinfo E offset) in
      if slotinfo < length (sizeCache fpsp) then
        if sizeCache fpsp ! slotinfo = 0 then do {
          v \<leftarrow> ReadUInt32 (Record fpsp) (unat (offset + of_nat (util_LOCATION_SIZE E)));
          Some (v, fpsp\<lparr>sizeCache := (sizeCache fpsp)[slotinfo := v]\<rparr>)
        }
        else Some (sizeCache fpsp ! slotinfo, fpsp)
      else None)"

definition SetFreeSlotSize ::
  "env \<Rightarrow> FreePhysicalSlotPage \<Rightarrow> uint16 \<Rightarrow> uint32 \<Rightarrow> FreePhysicalSlotPage option" where
  "SetFreeSlotSize E fpsp offset sz =
     (let slotinfo = unat (offsetToSlotinfo E offset) in
      if slotinfo < length (sizeCache fpsp) then do {
        d \<leftarrow> WriteUInt32 (Record fpsp) (unat (offset + of_nat (util_LOCATION_SIZE E))) sz;
        Some (fpsp\<lparr>sizeCache := (sizeCache fpsp)[slotinfo := sz], Record := d\<rparr>)
      }
      else None)"

text \<open>
  Modelled from the spec: \<^verbatim>\<open>SetSlotInfo\<close> of the embedded \<^verbatim>\<open>SlotInfoPage\<close>, which is
  defined in another file of the package. The spec gives the slot-record primitive as the write of
  a location at a row, the location being the record identity and the byte offset
  packed into one integer of fixed width, stored at the start of the row.
\<close>

definition SetSlotInfo ::
  "env \<Rightarrow> FreePhysicalSlotPage \<Rightarrow> uint16 \<Rightarrow> uint64 \<Rightarrow> uint16 \<Rightarrow> FreePhysicalSlotPage option" where
  "SetSlotInfo E fpsp slotinfoOffset recordId offset = do {
     d \<leftarrow> WriteUInt64 (Record fpsp) (unat slotinfoOffset) (util_PackLocation E recordId offset);
     Some (fpsp\<lparr>Record := d\<rparr>)
   }"

definition AllocateSlotInfo ::
  "env \<Rightarrow> FreePhysicalSlotPage \<Rightarrow> uint16 \<Rightarrow> (uint16 \<times> FreePhysicalSlotPage) option" where
  "AllocateSlotInfo E fpsp slotinfo =
     (let offset = slotinfoToOffset E slotinfo in do {
        p1 \<leftarrow> SetFreeSlotSize E fpsp offset 1;
        p2 \<leftarrow> SetSlotInfo E p1 offset 1 1;
        c \<leftarrow> FreeSlotCount E p2;
        d \<leftarrow> WriteUInt16 (Record p2) (OFFSET_COUNT E) (c + 1);
        Some (offset, p2\<lparr>Record := d\<rparr>)
      })"

definition ReleaseSlotInfo ::
  "env \<Rightarrow> FreePhysicalSlotPage \<Rightarrow> uint16 \<Rightarrow> (uint16 \<times> FreePhysicalSlotPage) option" where
  "ReleaseSlotInfo E fpsp slotinfo =
     (let offset = slotinfoToOffset E slotinfo in do {
        p1 \<leftarrow> SetFreeSlotSize E fpsp offset 0;
        p2 \<leftarrow> SetSlotInfo E p1 offset 0 0;
        c \<leftarrow> FreeSlotCount E p2;
        d \<leftarrow> WriteUInt16 (Record p2) (OFFSET_COUNT E) (c - 1);
        Some (offset, p2\<lparr>Record := d\<rparr>)
      })"

definition isAllocatedSlot ::
  "env \<Rightarrow> FreePhysicalSlotPage \<Rightarrow> uint16 \<Rightarrow> (bool \<times> FreePhysicalSlotPage) option" where
  "isAllocatedSlot E fpsp slotinfo =
     (let offset = slotinfoToOffset E slotinfo in do {
        (sz, p1) \<leftarrow> FreeSlotSize E fpsp offset;
        Some (sz \<noteq> 0, p1)
      })"

text \<open>
  \<^verbatim>\<open>FirstFreeSlotInfo\<close>: the loop over \<open>i\<close>, from the value of \<open>i\<close> on. The loop counter is
  a \<open>uint16\<close>; the result is Go's \<open>int(i)\<close>, or \<open>-1\<close>.
\<close>

function FirstFreeSlotInfo_loop ::
  "env \<Rightarrow> FreePhysicalSlotPage \<Rightarrow> uint16 \<Rightarrow> (int \<times> FreePhysicalSlotPage) option" where
  "FirstFreeSlotInfo_loop E fpsp i =
     (if i < maxSlots fpsp then
        case isAllocatedSlot E fpsp i of
          None \<Rightarrow> None
        | Some (allocated, p1) \<Rightarrow>
            if \<not> allocated then Some (uint i, p1)
            else FirstFreeSlotInfo_loop E p1 (i + 1)
      else Some (- 1, fpsp))"
  by pat_completeness auto

definition FirstFreeSlotInfo ::
  "env \<Rightarrow> FreePhysicalSlotPage \<Rightarrow> (int \<times> FreePhysicalSlotPage) option" where
  "FirstFreeSlotInfo E fpsp = FirstFreeSlotInfo_loop E fpsp 0"

text \<open>
  \<^verbatim>\<open>FindSlot\<close>. \<open>FindSlot_end\<close> is the code after the loop, \<open>FindSlot_loop\<close> the loop from
  the value of \<open>i\<close> on, with the local variables \<open>bestSlot\<close>, \<open>bestSlotWaste\<close> and
  \<open>maxSize\<close> as arguments. The subtraction \<open>slotinfoSize - minSize\<close> is one of \<open>uint32\<close>.
  \<^verbatim>\<open>util.MAX_AVAILABLE_SIZE_DIFFERENCE\<close> is an untyped constant, compared as a number.
\<close>

definition FindSlot_end :: "env \<Rightarrow> FreePhysicalSlotPage \<Rightarrow> int \<Rightarrow> uint32 \<Rightarrow> uint32 \<Rightarrow> int" where
  "FindSlot_end E fpsp bestSlot bestSlotWaste maxSize =
     (if bestSlot \<noteq> - 1 then
        if bestSlotWaste < maxAcceptableWaste fpsp \<and>
           unat bestSlotWaste < util_MAX_AVAILABLE_SIZE_DIFFERENCE E
        then bestSlot
        else - uint maxSize
      else - uint maxSize)"

function FindSlot_loop ::
  "env \<Rightarrow> FreePhysicalSlotPage \<Rightarrow> uint32 \<Rightarrow> uint16 \<Rightarrow> int \<Rightarrow> uint32 \<Rightarrow> uint32 \<Rightarrow>
   (int \<times> FreePhysicalSlotPage) option" where
  "FindSlot_loop E fpsp minSize i bestSlot bestSlotWaste maxSize =
     (if i < maxSlots fpsp then
        case FreeSlotSize E fpsp (slotinfoToOffset E i) of
          None \<Rightarrow> None
        | Some (slotinfoSize, p1) \<Rightarrow>
            let maxSize1 = (if slotinfoSize > maxSize then slotinfoSize else maxSize);
                waste = slotinfoSize - minSize
            in if waste \<ge> 0 then
                 if waste < OPTIMAL_WASTE_MARGIN then Some (uint i, p1)
                 else if bestSlotWaste > waste then
                   FindSlot_loop E p1 minSize (i + 1) (uint i) waste maxSize1
                 else FindSlot_loop E p1 minSize (i + 1) bestSlot bestSlotWaste maxSize1
               else FindSlot_loop E p1 minSize (i + 1) bestSlot bestSlotWaste maxSize1
      else Some (FindSlot_end E fpsp bestSlot bestSlotWaste maxSize, fpsp))"
  by pat_completeness auto

definition FindSlot ::
  "env \<Rightarrow> FreePhysicalSlotPage \<Rightarrow> uint32 \<Rightarrow> (int \<times> FreePhysicalSlotPage) option" where
  "FindSlot E fpsp minSize =
     FindSlot_loop E fpsp minSize 0 (- 1) (maxAcceptableWaste fpsp + 1) 0"

section \<open>Pages, rows and sequences of calls\<close>

text \<open>
  What the constants of the other packages have to satisfy for the layout of a row to make
  sense: the location field holds the 8 bytes of a packed location and the size
  information holds the 4 bytes of a \<open>uint32\<close>.
\<close>

definition env_ok :: "env \<Rightarrow> bool" where
  "env_ok E = (8 \<le> util_LOCATION_SIZE E \<and> 4 \<le> util_SIZE_INFO_SIZE E)"

text \<open>
  The rows as they are stored in the record: row \<open>i\<close> starts at \<open>row_offset E i\<close>, its
  location is the 64-bit value there, and its size is the 32-bit value behind the location
  field. \<open>row_size\<close> is the true on-disk size of a row, whatever the cache holds.
\<close>

definition row_offset :: "env \<Rightarrow> nat \<Rightarrow> nat" where
  "row_offset E i = OFFSET_DATA E + i * SLOT_INFO_SIZE E"

definition row_size :: "env \<Rightarrow> byte list \<Rightarrow> nat \<Rightarrow> uint32" where
  "row_size E d i = get32 d (row_offset E i + util_LOCATION_SIZE E)"

definition row_location :: "env \<Rightarrow> byte list \<Rightarrow> nat \<Rightarrow> uint64" where
  "row_location E d i = get64 d (row_offset E i)"

definition row_count :: "env \<Rightarrow> byte list \<Rightarrow> uint16" where
  "row_count E d = get16 d (OFFSET_COUNT E)"

text \<open>
  The pages the methods are meant for: the cache has one entry for each of the \<open>maxSlots\<close>
  rows, the rows lie inside the record, the record is short enough for every offset of a
  row to be a \<open>uint16\<close>, and an entry of the cache is either 0 or the size stored in
  its row. \<^verbatim>\<open>NewFreePhysicalSlotPage\<close> returns such a page, and the methods keep the page
  such a page (lemmas \<open>NewFreePhysicalSlotPage_ok\<close> and \<open>exec_effect\<close>).
\<close>

definition cache_entry_ok :: "env \<Rightarrow> FreePhysicalSlotPage \<Rightarrow> nat \<Rightarrow> bool" where
  "cache_entry_ok E p i =
     (sizeCache p ! i = 0 \<or> sizeCache p ! i = row_size E (Record p) i)"

definition page_ok :: "env \<Rightarrow> FreePhysicalSlotPage \<Rightarrow> bool" where
  "page_ok E p =
     (env_ok E \<and>
      length (sizeCache p) = unat (maxSlots p) \<and>
      row_offset E (unat (maxSlots p)) \<le> length (Record p) \<and>
      length (Record p) \<le> 65536 \<and>
      list_all (cache_entry_ok E p) [0..<unat (maxSlots p)])"

text \<open>The sizes of all rows, in the order of the rows, and the largest of them.\<close>

definition row_sizes :: "env \<Rightarrow> FreePhysicalSlotPage \<Rightarrow> uint32 list" where
  "row_sizes E p = map (row_size E (Record p)) [0..<unat (maxSlots p)]"

definition max_row_size :: "env \<Rightarrow> FreePhysicalSlotPage \<Rightarrow> uint32" where
  "max_row_size E p = fold max (row_sizes E p) 0"

text \<open>
  The invariant of the row count: the 16-bit count in the header is the number of rows
  whose size field is not 0.
\<close>

definition rows_in_use :: "env \<Rightarrow> FreePhysicalSlotPage \<Rightarrow> nat" where
  "rows_in_use E p = length (filter (\<lambda>s. s \<noteq> 0) (row_sizes E p))"

definition count_ok :: "env \<Rightarrow> FreePhysicalSlotPage \<Rightarrow> bool" where
  "count_ok E p = (unat (row_count E (Record p)) = rows_in_use E p)"

text \<open>
  The wastes \<^verbatim>\<open>FindSlot\<close> is specified with. A row fits a request when its size is at
  least the requested size; its waste is then the difference. \<open>fits_optimal\<close>: the
  waste is below \<^verbatim>\<open>OPTIMAL_WASTE_MARGIN\<close>. \<open>fits_acceptable\<close>: the waste is below
  \<open>maxAcceptableWaste\<close> and below \<^verbatim>\<open>util.MAX_AVAILABLE_SIZE_DIFFERENCE\<close>.
\<close>

definition fits_optimal :: "uint32 \<Rightarrow> uint32 \<Rightarrow> bool" where
  "fits_optimal minSize s = (minSize \<le> s \<and> unat s - unat minSize < 128)"

definition fits_acceptable :: "env \<Rightarrow> FreePhysicalSlotPage \<Rightarrow> uint32 \<Rightarrow> uint32 \<Rightarrow> bool" where
  "fits_acceptable E p minSize s =
     (minSize \<le> s \<and> unat s - unat minSize < unat (maxAcceptableWaste p) \<and>
      unat s - unat minSize < util_MAX_AVAILABLE_SIZE_DIFFERENCE E)"

text \<open>
  Calls of the methods of a page, for statements about sequences of calls. \<open>exec\<close> makes
  one call and keeps the page, \<open>run\<close> makes the calls of a list one after the other; a
  panic ends the run.
\<close>

datatype call =
    Call_FreeSlotCount
  | Call_FreeSlotSize uint16
  | Call_SetFreeSlotSize uint16 uint32
  | Call_AllocateSlotInfo uint16
  | Call_ReleaseSlotInfo uint16
  | Call_FirstFreeSlotInfo
  | Call_FindSlot uint32

fun exec :: "env \<Rightarrow> FreePhysicalSlotPage \<Rightarrow> call \<Rightarrow> FreePhysicalSlotPage option" where
  "exec E p Call_FreeSlotCount = map_option (\<lambda>_. p) (FreeSlotCount E p)"
| "exec E p (Call_FreeSlotSize offset) = map_option snd (FreeSlotSize E p offset)"
| "exec E p (Call_SetFreeSlotSize offset sz) = SetFreeSlotSize E p offset sz"
| "exec E p (Call_AllocateSlotInfo slotinfo) = map_option snd (AllocateSlotInfo E p slotinfo)"
| "exec E p (Call_ReleaseSlotInfo slotinfo) = map_option snd (ReleaseSlotInfo E p slotinfo)"
| "exec E p Call_FirstFreeSlotInfo = map_option snd (FirstFreeSlotInfo E p)"
| "exec E p (Call_FindSlot minSize) = map_option snd (FindSlot E p minSize)"

fun run :: "env \<Rightarrow> FreePhysicalSlotPage \<Rightarrow> call list \<Rightarrow> FreePhysicalSlotPage option" where
  "run E p [] = Some p"
| "run E p (c # cs) = (case exec E p c of None \<Rightarrow> None | Some p1 \<Rightarrow> run E p1 cs)"

text \<open>
  A call is in range when the row it names is one of the \<open>maxSlots\<close> rows of the page:
  a slotinfo below \<open>maxSlots\<close>, or the offset of such a row.
\<close>

definition is_row_offset :: "env \<Rightarrow> FreePhysicalSlotPage \<Rightarrow> uint16 \<Rightarrow> bool" where
  "is_row_offset E p offset =
     (offsetToSlotinfo E offset < maxSlots p \<and>
      slotinfoToOffset E (offsetToSlotinfo E offset) = offset)"

fun in_range :: "env \<Rightarrow> FreePhysicalSlotPage \<Rightarrow> call \<Rightarrow> bool" where
  "in_range E p (Call_FreeSlotSize offset) = is_row_offset E p offset"
| "in_range E p (Call_SetFreeSlotSize offset sz) = is_row_offset E p offset"
| "in_range E p (Call_AllocateSlotInfo slotinfo) = (slotinfo < maxSlots p)"
| "in_range E p (Call_ReleaseSlotInfo slotinfo) = (slotinfo < maxSlots p)"
| "in_range E p _ = True"

text \<open>The row whose size a call writes, if it writes one.\<close>

fun written_row :: "env \<Rightarrow> call \<Rightarrow> uint16 option" where
  "written_row E (Call_SetFreeSlotSize offset sz) = Some (offsetToSlotinfo E offset)"
| "written_row E (Call_AllocateSlotInfo slotinfo) = Some slotinfo"
| "written_row E (Call_ReleaseSlotInfo slotinfo) = Some slotinfo"
| "written_row E _ = None"

text \<open>The calls that claim or release a row.\<close>

fun claims_or_releases :: "call \<Rightarrow> bool" where
  "claims_or_releases (Call_AllocateSlotInfo slotinfo) = True"
| "claims_or_releases (Call_ReleaseSlotInfo slotinfo) = True"
| "claims_or_releases _ = False"

text \<open>
  The calls that keep the row count right: a row is claimed only when it is vacant,
  released only when it is in use, and a size is set only on a row in use and never to 0.
  \<open>admissible\<close> checks the calls of a list, each on the page the calls before it leave.
\<close>

fun pre :: "env \<Rightarrow> FreePhysicalSlotPage \<Rightarrow> call \<Rightarrow> bool" where
  "pre E p (Call_SetFreeSlotSize offset sz) =
     (is_row_offset E p offset \<and> sz \<noteq> 0 \<and>
      row_size E (Record p) (unat (offsetToSlotinfo E offset)) \<noteq> 0)"
| "pre E p (Call_AllocateSlotInfo slotinfo) =
     (slotinfo < maxSlots p \<and> row_size E (Record p) (unat slotinfo) = 0)"
| "pre E p (Call_ReleaseSlotInfo slotinfo) =
     (slotinfo < maxSlots p \<and> row_size E (Record p) (unat slotinfo) \<noteq> 0)"
| "pre E p c = in_range E p c"

fun admissible :: "env \<Rightarrow> FreePhysicalSlotPage \<Rightarrow> call list \<Rightarrow> bool" where
  "admissible E p [] = True"
| "admissible E p (c # cs) =
     (pre E p c \<and> (case exec E p c of None \<Rightarrow> False | Some p1 \<Rightarrow> admissible E p1 cs))"

text \<open>
  The pages two of the methods leave, as terms, for the lemmas about them. \<open>set_size\<close> is
  the page after \<^verbatim>\<open>SetFreeSlotSize\<close> on row \<open>i\<close>; \<open>mark_row\<close> is the page after
  \<^verbatim>\<open>AllocateSlotInfo\<close> or \<^verbatim>\<open>ReleaseSlotInfo\<close> on row \<open>i\<close>, which write a size, a location
  and the count.
\<close>

definition set_size :: "env \<Rightarrow> FreePhysicalSlotPage \<Rightarrow> nat \<Rightarrow> uint32 \<Rightarrow> FreePhysicalSlotPage" where
  "set_size E p i s =
     p\<lparr>sizeCache := (sizeCache p)[i := s],
       Record := put32 (Record p) (row_offset E i + util_LOCATION_SIZE E) s\<rparr>"

definition mark_row ::
  "env \<Rightarrow> FreePhysicalSlotPage \<Rightarrow> nat \<Rightarrow> uint32 \<Rightarrow> uint64 \<Rightarrow> uint16 \<Rightarrow> FreePhysicalSlotPage" where
  "mark_row E p i s loc c =
     p\<lparr>sizeCache := (sizeCache p)[i := s],
       Record := put16 (put64 (put32 (Record p) (row_offset E i + util_LOCATION_SIZE E) s)
                   (row_offset E i) loc) (OFFSET_COUNT E) c\<rparr>"

text \<open>
  \<open>cache_only p p'\<close>: the page \<open>p'\<close> differs from \<open>p\<close> in the cache at most, and there only
  in entries that were 0.
\<close>

definition cache_only :: "FreePhysicalSlotPage \<Rightarrow> FreePhysicalSlotPage \<Rightarrow> bool" where
  "cache_only p p' =
     (Record p' = Record p \<and> maxSlots p' = maxSlots p \<and>
      maxAcceptableWaste p' = maxAcceptableWaste p \<and>
      length (sizeCache p') = length (sizeCache p) \<and>
      (\<forall>j < length (sizeCache p). sizeCache p ! j \<noteq> 0 \<longrightarrow> sizeCache p' ! j = sizeCache p ! j))"

text \<open>
  The result \<^verbatim>\<open>FirstFreeSlotInfo\<close> is specified with: the first row from row \<open>k\<close> on whose
  size field is 0, as an \<open>int\<close>, and \<open>-1\<close> when there is none.
\<close>

definition first_vacant :: "env \<Rightarrow> FreePhysicalSlotPage \<Rightarrow> nat \<Rightarrow> int" where
  "first_vacant E p k =
     (case find (\<lambda>j. row_size E (Record p) j = 0) [k..<unat (maxSlots p)] of
        None \<Rightarrow> - 1 | Some j \<Rightarrow> int j)"

text \<open>
  The two tests of \<^verbatim>\<open>FindSlot\<close> on the 32-bit difference of a size and the requested size,
  both failing: the difference is not below the optimal margin, and it is not below both
  \<open>maxAcceptableWaste\<close> and \<^verbatim>\<open>util.MAX_AVAILABLE_SIZE_DIFFERENCE\<close>.
\<close>

definition rejected :: "env \<Rightarrow> FreePhysicalSlotPage \<Rightarrow> uint32 \<Rightarrow> uint32 \<Rightarrow> bool" where
  "rejected E p minSize s =
     (\<not> s - minSize < OPTIMAL_WASTE_MARGIN \<and>
      \<not> (s - minSize < maxAcceptableWaste p \<and>
         unat (s - minSize) < util_MAX_AVAILABLE_SIZE_DIFFERENCE E))"

text \<open>
  Examples. The constants \<open>example_env\<close> put the count behind an 18-byte header and give
  a row 8 bytes of location and 4 bytes of size. \<open>example_page\<close> is the page of the
  scenario in the specification, four rows of sizes 0, 500, 50 and 200 in a record of 68
  bytes; \<open>vacant_page\<close> has two vacant rows and the count 0; \<open>full_count_page\<close> has
  two vacant rows and the count 65535.
\<close>

definition example_env :: env where
  "example_env =
     \<lparr>view_OFFSET_DATA = 18, util_LOCATION_SIZE = 8, util_SIZE_INFO_SIZE = 4,
      util_MAX_AVAILABLE_SIZE_DIFFERENCE = 65534, view_PAGE_MAGIC = 0x1991,
      util_PackLocation = (\<lambda>recordId offset. push_bit 16 recordId OR ucast offset)\<rparr>"

definition example_page :: FreePhysicalSlotPage where
  "example_page =
     \<lparr>Record =
        [0x19, 0x91, 0, 0, 0, 0, 0, 0, 0, 0, 0, 0, 0, 0, 0, 0, 0, 0, 0, 3,
         0, 0, 0, 0, 0, 0, 0, 0, 0, 0, 0, 0,
         0, 0, 0, 0, 0, 1, 0, 1, 0, 0, 1, 244,
         0, 0, 0, 0, 0, 1, 0, 2, 0, 0, 0, 50,
         0, 0, 0, 0, 0, 1, 0, 3, 0, 0, 0, 200],
      maxSlots = 4, maxAcceptableWaste = 17, sizeCache = [0, 0, 0, 0]\<rparr>"

definition vacant_page :: FreePhysicalSlotPage where
  "vacant_page =
     \<lparr>Record =
        [0x19, 0x91, 0, 0, 0, 0, 0, 0, 0, 0, 0, 0, 0, 0, 0, 0, 0, 0, 0, 0,
         0, 0, 0, 0, 0, 0, 0, 0, 0, 0, 0, 0,
         0, 0, 0, 0, 0, 0, 0, 0, 0, 0, 0, 0],
      maxSlots = 2, maxAcceptableWaste = 11, sizeCache = [0, 0]\<rparr>"

definition full_count_page :: FreePhysicalSlotPage where
  "full_count_page =
     \<lparr>Record =
        [0x19, 0x91, 0, 0, 0, 0, 0, 0, 0, 0, 0, 0, 0, 0, 0, 0, 0, 0, 255, 255,
         0, 0, 0, 0, 0, 0, 0, 0, 0, 0, 0, 0,
         0, 0, 0, 0, 0, 0, 0, 0, 0, 0, 0, 0],
      maxSlots = 2, maxAcceptableWaste = 11, sizeCache = [0, 0]\<rparr>"

text \<open>\<open>undersized_page\<close> has three rows, of sizes 1000, 3 and 4294967295.\<close>

definition undersized_page :: FreePhysicalSlotPage where
  "undersized_page =
     \<lparr>Record =
        [0x19, 0x91, 0, 0, 0, 0, 0, 0, 0, 0, 0, 0, 0, 0, 0, 0, 0, 0, 0, 3,
         0, 0, 0, 0, 0, 1, 0, 1, 0, 0, 3, 232,
         0, 0, 0, 0, 0, 1, 0, 2, 0, 0, 0, 3,
         0, 0, 0, 0, 0, 1, 0, 3, 255, 255, 255, 255],
      maxSlots = 3, maxAcceptableWaste = 14, sizeCache = [0, 0, 0]\<rparr>"

section \<open>Termination of the loops\<close>

lemma FreeSlotSize_maxSlots:
  "FreeSlotSize E fpsp offset = Some (v, p1) \<Longrightarrow> maxSlots p1 = maxSlots fpsp"
  by (auto simp: FreeSlotSize_def Let_def split: if_splits Option.bind_splits)

lemma isAllocatedSlot_maxSlots:
  "isAllocatedSlot E fpsp i = Some (a, p1) \<Longrightarrow> maxSlots p1 = maxSlots fpsp"
  by (auto simp: isAllocatedSlot_def Let_def split: Option.bind_splits dest: FreeSlotSize_maxSlots)

lemma loop_counter_decreases:
  fixes i m :: uint16
  assumes "i < m"
  shows "unat m - unat (i + 1) < unat m - unat i"
  using assms by unat_arith

termination FirstFreeSlotInfo_loop
  by (relation "measure (\<lambda>(E, fpsp, i). unat (maxSlots fpsp) - unat i)")
     (auto dest!: isAllocatedSlot_maxSlots simp: loop_counter_decreases)

termination FindSlot_loop
  by (relation "measure (\<lambda>(E, fpsp, minSize, i, b, w, m). unat (maxSlots fpsp) - unat i)")
     (auto dest!: FreeSlotSize_maxSlots simp: loop_counter_decreases)

section \<open>Lemmas about the record and the rows\<close>

subsection \<open>Reads and writes of the record\<close>

lemma length_put16 [simp]: "length (put16 d pos v) = length d"
  by (simp add: put16_def)

lemma length_put32 [simp]: "length (put32 d pos v) = length d"
  by (simp add: put32_def)

lemma length_put64 [simp]: "length (put64 d pos v) = length d"
  by (simp add: put64_def)

lemma bytes16: "push_bit 8 (ucast (ucast (drop_bit 8 v) :: byte)) OR ucast (ucast v :: byte) = (v :: uint16)"
proof (rule bit_word_eqI)
  fix n :: nat
  assume "n < LENGTH(16)"
  then consider "n < 8" | "8 \<le> n" "n < 16"
    by fastforce
  then show "bit (push_bit 8 (ucast (ucast (drop_bit 8 v) :: byte)) OR ucast (ucast v :: byte) :: uint16) n
      = bit v n"
    by cases (auto simp: bit_simps)
qed

lemma bytes32:
  "push_bit 24 (ucast (ucast (drop_bit 24 v) :: byte)) OR
   push_bit 16 (ucast (ucast (drop_bit 16 v) :: byte)) OR
   push_bit 8 (ucast (ucast (drop_bit 8 v) :: byte)) OR ucast (ucast v :: byte) = (v :: uint32)"
proof (rule bit_word_eqI)
  fix n :: nat
  assume "n < LENGTH(32)"
  then consider "n < 8" | "8 \<le> n" "n < 16" | "16 \<le> n" "n < 24" | "24 \<le> n" "n < 32"
    by fastforce
  then show "bit (push_bit 24 (ucast (ucast (drop_bit 24 v) :: byte)) OR
      push_bit 16 (ucast (ucast (drop_bit 16 v) :: byte)) OR
      push_bit 8 (ucast (ucast (drop_bit 8 v) :: byte)) OR ucast (ucast v :: byte) :: uint32) n
      = bit v n"
    by cases (auto simp: bit_simps)
qed

lemma bytes64:
  "push_bit 56 (ucast (ucast (drop_bit 56 v) :: byte)) OR
   push_bit 48 (ucast (ucast (drop_bit 48 v) :: byte)) OR
   push_bit 40 (ucast (ucast (drop_bit 40 v) :: byte)) OR
   push_bit 32 (ucast (ucast (drop_bit 32 v) :: byte)) OR
   push_bit 24 (ucast (ucast (drop_bit 24 v) :: byte)) OR
   push_bit 16 (ucast (ucast (drop_bit 16 v) :: byte)) OR
   push_bit 8 (ucast (ucast (drop_bit 8 v) :: byte)) OR ucast (ucast v :: byte) = (v :: uint64)"
proof (rule bit_word_eqI)
  fix n :: nat
  assume "n < LENGTH(64)"
  then consider "n < 8" | "8 \<le> n" "n < 16" | "16 \<le> n" "n < 24" | "24 \<le> n" "n < 32"
     | "32 \<le> n" "n < 40" | "40 \<le> n" "n < 48" | "48 \<le> n" "n < 56" | "56 \<le> n" "n < 64"
    by fastforce
  then show "bit (push_bit 56 (ucast (ucast (drop_bit 56 v) :: byte)) OR
      push_bit 48 (ucast (ucast (drop_bit 48 v) :: byte)) OR
      push_bit 40 (ucast (ucast (drop_bit 40 v) :: byte)) OR
      push_bit 32 (ucast (ucast (drop_bit 32 v) :: byte)) OR
      push_bit 24 (ucast (ucast (drop_bit 24 v) :: byte)) OR
      push_bit 16 (ucast (ucast (drop_bit 16 v) :: byte)) OR
      push_bit 8 (ucast (ucast (drop_bit 8 v) :: byte)) OR ucast (ucast v :: byte) :: uint64) n
      = bit v n"
    by cases (auto simp: bit_simps)
qed

lemma get16_put16: "pos + 2 \<le> length d \<Longrightarrow> get16 (put16 d pos v) pos = v"
  by (simp add: get16_def put16_def bytes16)

lemma get32_put32: "pos + 4 \<le> length d \<Longrightarrow> get32 (put32 d pos v) pos = v"
  by (simp add: get32_def put32_def bytes32)

lemma get64_put64: "pos + 8 \<le> length d \<Longrightarrow> get64 (put64 d pos v) pos = v"
  by (simp add: get64_def put64_def bytes64)

lemma get16_put32: "q + 2 \<le> pos \<or> pos + 4 \<le> q \<Longrightarrow> get16 (put32 d pos v) q = get16 d q"
  by (auto simp: get16_def put32_def)

lemma get16_put64: "q + 2 \<le> pos \<or> pos + 8 \<le> q \<Longrightarrow> get16 (put64 d pos v) q = get16 d q"
  by (auto simp: get16_def put64_def)

lemma get32_put16: "q + 4 \<le> pos \<or> pos + 2 \<le> q \<Longrightarrow> get32 (put16 d pos v) q = get32 d q"
  by (auto simp: get32_def put16_def)

lemma get32_put32_other: "q + 4 \<le> pos \<or> pos + 4 \<le> q \<Longrightarrow> get32 (put32 d pos v) q = get32 d q"
  by (auto simp: get32_def put32_def)

lemma get32_put64: "q + 4 \<le> pos \<or> pos + 8 \<le> q \<Longrightarrow> get32 (put64 d pos v) q = get32 d q"
  by (auto simp: get32_def put64_def)

lemma get64_put16: "q + 8 \<le> pos \<or> pos + 2 \<le> q \<Longrightarrow> get64 (put16 d pos v) q = get64 d q"
  by (auto simp: get64_def put16_def)

lemma get64_put32: "q + 8 \<le> pos \<or> pos + 4 \<le> q \<Longrightarrow> get64 (put32 d pos v) q = get64 d q"
  by (auto simp: get64_def put32_def)

lemma get64_put64_other: "q + 8 \<le> pos \<or> pos + 8 \<le> q \<Longrightarrow> get64 (put64 d pos v) q = get64 d q"
  by (auto simp: get64_def put64_def)

subsection \<open>Offsets of rows\<close>

lemma row_offset_mono: "i \<le> j \<Longrightarrow> row_offset E i \<le> row_offset E j"
  by (simp add: row_offset_def)

lemma row_offset_Suc: "row_offset E (Suc i) = row_offset E i + SLOT_INFO_SIZE E"
  by (simp add: row_offset_def)

lemma row_end:
  assumes "page_ok E p" "i < unat (maxSlots p)"
  shows "row_offset E i + SLOT_INFO_SIZE E \<le> length (Record p)"
    and "row_offset E i + SLOT_INFO_SIZE E \<le> 65536"
proof -
  have "row_offset E (Suc i) \<le> row_offset E (unat (maxSlots p))"
    using assms(2) by (intro row_offset_mono) simp
  then show "row_offset E i + SLOT_INFO_SIZE E \<le> length (Record p)"
    using assms(1) by (simp add: page_ok_def row_offset_Suc)
  then show "row_offset E i + SLOT_INFO_SIZE E \<le> 65536"
    using assms(1) by (simp add: page_ok_def)
qed

lemma slot_size_ge: "env_ok E \<Longrightarrow> util_LOCATION_SIZE E + 4 \<le> SLOT_INFO_SIZE E"
  by (simp add: env_ok_def SLOT_INFO_SIZE_def)

lemma unat_of_nat16: "n < 65536 \<Longrightarrow> unat (of_nat n :: uint16) = n"
  by (simp add: unat_of_nat)

lemma slotinfoToOffset_of_nat:
  "slotinfoToOffset E i = of_nat (row_offset E (unat i))"
  by (simp add: slotinfoToOffset_def row_offset_def)

lemma unat_slotinfoToOffset:
  assumes "page_ok E p" "i < maxSlots p"
  shows "unat (slotinfoToOffset E i) = row_offset E (unat i)"
proof -
  have "unat i < unat (maxSlots p)" using assms(2) by (simp add: word_less_nat_alt)
  from row_end(2)[OF assms(1) this] slot_size_ge[of E] assms(1)
  have "row_offset E (unat i) < 65536" by (simp add: page_ok_def)
  then show ?thesis by (simp add: slotinfoToOffset_of_nat unat_of_nat16)
qed

lemma unat_size_position:
  assumes "page_ok E p" "i < maxSlots p"
  shows "unat (slotinfoToOffset E i + of_nat (util_LOCATION_SIZE E))
         = row_offset E (unat i) + util_LOCATION_SIZE E"
proof -
  have "unat i < unat (maxSlots p)" using assms(2) by (simp add: word_less_nat_alt)
  from row_end(2)[OF assms(1) this] slot_size_ge[of E] assms(1)
  have "row_offset E (unat i) + util_LOCATION_SIZE E < 65536" by (simp add: page_ok_def)
  moreover have "slotinfoToOffset E i + of_nat (util_LOCATION_SIZE E)
     = (of_nat (row_offset E (unat i) + util_LOCATION_SIZE E) :: uint16)"
    by (simp add: slotinfoToOffset_of_nat)
  ultimately show ?thesis by (simp only: unat_of_nat16)
qed

lemma offsetToSlotinfo_slotinfoToOffset:
  assumes "page_ok E p" "i < maxSlots p"
  shows "offsetToSlotinfo E (slotinfoToOffset E i) = i"
proof -
  have lt: "unat i < unat (maxSlots p)" using assms(2) by (simp add: word_less_nat_alt)
  have pos: "0 < SLOT_INFO_SIZE E"
    using slot_size_ge[of E] assms(1) by (simp add: page_ok_def)
  from row_end(2)[OF assms(1) lt]
  have b: "unat i * SLOT_INFO_SIZE E < 65536" "SLOT_INFO_SIZE E < 65536"
    using pos by (auto simp: row_offset_def OFFSET_DATA_def SIZE_SHORT_def)
  have u: "unat (i * of_nat (SLOT_INFO_SIZE E) :: uint16) = unat i * SLOT_INFO_SIZE E"
    using b by (simp add: unat_word_ariths unat_of_nat16)
  have "slotinfoToOffset E i - of_nat (OFFSET_DATA E) = i * of_nat (SLOT_INFO_SIZE E)"
    by (simp add: slotinfoToOffset_def)
  then have "unat (offsetToSlotinfo E (slotinfoToOffset E i))
      = (unat i * SLOT_INFO_SIZE E) div SLOT_INFO_SIZE E"
    using b u by (simp add: offsetToSlotinfo_def unat_div unat_of_nat16)
  then have "unat (offsetToSlotinfo E (slotinfoToOffset E i)) = unat i"
    using pos by simp
  then show ?thesis by (simp add: word_unat_eq_iff)
qed


subsection \<open>Writes to a row and to the count\<close>

lemma row_offset_less: "i < j \<Longrightarrow> row_offset E i + SLOT_INFO_SIZE E \<le> row_offset E j"
  using row_offset_mono[of "Suc i" j E] by (simp add: row_offset_Suc)

lemma count_before_rows: "OFFSET_COUNT E + 2 \<le> row_offset E i"
  by (simp add: row_offset_def OFFSET_DATA_def SIZE_SHORT_def)

lemma row_size_put32:
  assumes "env_ok E" "row_offset E i + SLOT_INFO_SIZE E \<le> length d"
  shows "row_size E (put32 d (row_offset E i + util_LOCATION_SIZE E) s) j
         = (if j = i then s else row_size E d j)"
proof (cases "j = i")
  case True
  then show ?thesis
    using assms slot_size_ge[of E] by (simp add: row_size_def get32_put32)
next
  case False
  then consider "j < i" | "i < j" by linarith
  then have "row_offset E j + util_LOCATION_SIZE E + 4 \<le> row_offset E i + util_LOCATION_SIZE E
     \<or> row_offset E i + util_LOCATION_SIZE E + 4 \<le> row_offset E j + util_LOCATION_SIZE E"
    using slot_size_ge[OF assms(1)] row_offset_less[of j i E] row_offset_less[of i j E]
    by cases auto
  then show ?thesis using False by (simp add: row_size_def get32_put32_other)
qed

lemma row_location_put32:
  assumes "env_ok E"
  shows "row_location E (put32 d (row_offset E i + util_LOCATION_SIZE E) s) j = row_location E d j"
proof -
  consider "j \<le> i" | "i < j" by linarith
  then have "row_offset E j + 8 \<le> row_offset E i + util_LOCATION_SIZE E
     \<or> row_offset E i + util_LOCATION_SIZE E + 4 \<le> row_offset E j"
    using slot_size_ge[OF assms] row_offset_mono[of j i E] row_offset_less[of i j E] assms
    by cases (auto simp: env_ok_def)
  then show ?thesis by (simp add: row_location_def get64_put32)
qed

lemma row_count_put32:
  "row_count E (put32 d (row_offset E i + util_LOCATION_SIZE E) s) = row_count E d"
  using count_before_rows[of E i] by (simp add: row_count_def get16_put32)

lemma row_size_put64:
  assumes "env_ok E"
  shows "row_size E (put64 d (row_offset E i) v) j = row_size E d j"
proof -
  consider "j < i" | "i \<le> j" by linarith
  then have "row_offset E j + util_LOCATION_SIZE E + 4 \<le> row_offset E i
     \<or> row_offset E i + 8 \<le> row_offset E j + util_LOCATION_SIZE E"
    using slot_size_ge[OF assms] row_offset_less[of j i E] row_offset_mono[of i j E] assms
    by cases (auto simp: env_ok_def)
  then show ?thesis by (simp add: row_size_def get32_put64)
qed

lemma row_location_put64:
  assumes "env_ok E" "row_offset E i + SLOT_INFO_SIZE E \<le> length d"
  shows "row_location E (put64 d (row_offset E i) v) j = (if j = i then v else row_location E d j)"
proof (cases "j = i")
  case True
  then show ?thesis
    using assms slot_size_ge[of E] by (simp add: row_location_def get64_put64 env_ok_def)
next
  case False
  then consider "j < i" | "i < j" by linarith
  then have "row_offset E j + 8 \<le> row_offset E i \<or> row_offset E i + 8 \<le> row_offset E j"
    using slot_size_ge[OF assms(1)] row_offset_less[of j i E] row_offset_less[of i j E] assms(1)
    by cases (auto simp: env_ok_def)
  then show ?thesis using False by (simp add: row_location_def get64_put64_other)
qed

lemma row_count_put64: "row_count E (put64 d (row_offset E i) v) = row_count E d"
  using count_before_rows[of E i] by (simp add: row_count_def get16_put64)

lemma row_size_put16: "row_size E (put16 d (OFFSET_COUNT E) v) j = row_size E d j"
  using count_before_rows[of E j] by (simp add: row_size_def get32_put16)

lemma row_location_put16: "row_location E (put16 d (OFFSET_COUNT E) v) j = row_location E d j"
  using count_before_rows[of E j] by (simp add: row_location_def get64_put16)

lemma row_count_put16:
  "OFFSET_COUNT E + 2 \<le> length d \<Longrightarrow> row_count E (put16 d (OFFSET_COUNT E) v) = v"
  by (simp add: row_count_def get16_put16)

subsection \<open>Well-formed pages\<close>

lemma page_ok_cache:
  "page_ok E p \<Longrightarrow> i < unat (maxSlots p) \<Longrightarrow> cache_entry_ok E p i"
  by (simp add: page_ok_def list_all_iff)

lemma page_okI:
  assumes "env_ok E" "length (sizeCache p) = unat (maxSlots p)"
    "row_offset E (unat (maxSlots p)) \<le> length (Record p)" "length (Record p) \<le> 65536"
    "\<And>i. i < unat (maxSlots p) \<Longrightarrow> cache_entry_ok E p i"
  shows "page_ok E p"
  using assms by (simp add: page_ok_def list_all_iff)

lemma page_ok_count_inside:
  assumes "page_ok E p"
  shows "OFFSET_COUNT E + 2 \<le> length (Record p)"
  using assms count_before_rows[of E "unat (maxSlots p)"] by (simp add: page_ok_def)

subsection \<open>The methods on a row of a well-formed page\<close>

lemma row_inside:
  assumes "page_ok E p" "i < maxSlots p"
  shows "unat i < unat (maxSlots p)"
    and "unat i < length (sizeCache p)"
    and "row_offset E (unat i) + SLOT_INFO_SIZE E \<le> length (Record p)"
    and "row_offset E (unat i) + util_LOCATION_SIZE E + 4 \<le> length (Record p)"
    and "row_offset E (unat i) + 8 \<le> length (Record p)"
proof -
  show lt: "unat i < unat (maxSlots p)" using assms(2) by (simp add: word_less_nat_alt)
  then show "unat i < length (sizeCache p)" using assms(1) by (simp add: page_ok_def)
  show e: "row_offset E (unat i) + SLOT_INFO_SIZE E \<le> length (Record p)"
    by (rule row_end(1)[OF assms(1) lt])
  have "env_ok E" using assms(1) by (simp add: page_ok_def)
  from slot_size_ge[OF this] e
  show "row_offset E (unat i) + util_LOCATION_SIZE E + 4 \<le> length (Record p)" by simp
  with \<open>env_ok E\<close> show "row_offset E (unat i) + 8 \<le> length (Record p)"
    by (simp add: env_ok_def)
qed

lemma FreeSlotSize_row:
  assumes "page_ok E p" "i < maxSlots p"
  shows "FreeSlotSize E p (slotinfoToOffset E i)
         = Some (row_size E (Record p) (unat i),
                 p\<lparr>sizeCache := (sizeCache p)[unat i := row_size E (Record p) (unat i)]\<rparr>)"
proof (cases "sizeCache p ! unat i = 0")
  case True
  then show ?thesis
    using row_inside[OF assms]
    by (simp add: FreeSlotSize_def Let_def offsetToSlotinfo_slotinfoToOffset[OF assms]
        unat_size_position[OF assms] ReadUInt32_def row_size_def)
next
  case False
  with page_ok_cache[OF assms(1) row_inside(1)[OF assms]]
  have c: "sizeCache p ! unat i = row_size E (Record p) (unat i)"
    by (simp add: cache_entry_ok_def)
  then have "(sizeCache p)[unat i := row_size E (Record p) (unat i)] = sizeCache p"
    by (metis list_update_id)
  then have "p\<lparr>sizeCache := (sizeCache p)[unat i := row_size E (Record p) (unat i)]\<rparr> = p"
    by simp
  then show ?thesis
    using False c row_inside[OF assms]
    by (simp add: FreeSlotSize_def Let_def offsetToSlotinfo_slotinfoToOffset[OF assms])
qed

lemma page_ok_cache_update:
  assumes "page_ok E p" "v = 0 \<or> v = row_size E (Record p) i"
  shows "page_ok E (p\<lparr>sizeCache := (sizeCache p)[i := v]\<rparr>)"
proof (rule page_okI)
  fix j assume "j < unat (maxSlots (p\<lparr>sizeCache := (sizeCache p)[i := v]\<rparr>))"
  then have j: "j < unat (maxSlots p)" by simp
  then have "j < length (sizeCache p)" using assms(1) by (simp add: page_ok_def)
  then show "cache_entry_ok E (p\<lparr>sizeCache := (sizeCache p)[i := v]\<rparr>) j"
    using page_ok_cache[OF assms(1) j] assms(2)
    by (cases "j = i") (auto simp: cache_entry_ok_def)
qed (use assms(1) in \<open>simp_all add: page_ok_def\<close>)

lemma SetFreeSlotSize_row:
  assumes "page_ok E p" "i < maxSlots p"
  shows "SetFreeSlotSize E p (slotinfoToOffset E i) s = Some (set_size E p (unat i) s)"
  using row_inside[OF assms]
  by (simp add: SetFreeSlotSize_def Let_def offsetToSlotinfo_slotinfoToOffset[OF assms]
      unat_size_position[OF assms] WriteUInt32_def set_size_def)

lemma set_size_ok:
  assumes "page_ok E p" "i < unat (maxSlots p)"
  shows "page_ok E (set_size E p i s)"
proof (rule page_okI)
  have env: "env_ok E" using assms(1) by (simp add: page_ok_def)
  fix j assume "j < unat (maxSlots (set_size E p i s))"
  then have j: "j < unat (maxSlots p)" by (simp add: set_size_def)
  then have "j < length (sizeCache p)" "i < length (sizeCache p)"
    using assms by (simp_all add: page_ok_def)
  then show "cache_entry_ok E (set_size E p i s) j"
    using page_ok_cache[OF assms(1) j] row_end(1)[OF assms]
    by (cases "j = i") (auto simp: cache_entry_ok_def set_size_def row_size_put32[OF env])
qed (use assms(1) in \<open>simp_all add: page_ok_def set_size_def\<close>)

lemma set_size_rows:
  assumes "page_ok E p" "i < unat (maxSlots p)"
  shows "row_size E (Record (set_size E p i s)) j = (if j = i then s else row_size E (Record p) j)"
    and "row_location E (Record (set_size E p i s)) j = row_location E (Record p) j"
    and "row_count E (Record (set_size E p i s)) = row_count E (Record p)"
    and "maxSlots (set_size E p i s) = maxSlots p"
    and "maxAcceptableWaste (set_size E p i s) = maxAcceptableWaste p"
    and "length (Record (set_size E p i s)) = length (Record p)"
proof -
  have env: "env_ok E" using assms(1) by (simp add: page_ok_def)
  show "row_size E (Record (set_size E p i s)) j = (if j = i then s else row_size E (Record p) j)"
    using row_end(1)[OF assms] by (simp add: set_size_def row_size_put32[OF env])
qed (use assms(1) in \<open>simp_all add: page_ok_def set_size_def row_location_put32 row_count_put32\<close>)

lemma mark_row_eq:
  assumes "page_ok E p" "i < maxSlots p"
  shows "do {
           p1 \<leftarrow> SetFreeSlotSize E p (slotinfoToOffset E i) s;
           p2 \<leftarrow> SetSlotInfo E p1 (slotinfoToOffset E i) r off;
           c \<leftarrow> FreeSlotCount E p2;
           d \<leftarrow> WriteUInt16 (Record p2) (OFFSET_COUNT E) (f c);
           Some (slotinfoToOffset E i, p2\<lparr>Record := d\<rparr>)
         } = Some (slotinfoToOffset E i,
                   mark_row E p (unat i) s (util_PackLocation E r off) (f (row_count E (Record p))))"
  using row_inside[OF assms] page_ok_count_inside[OF assms(1)]
  by (simp add: SetFreeSlotSize_row[OF assms] SetSlotInfo_def unat_slotinfoToOffset[OF assms]
      set_size_def WriteUInt64_def FreeSlotCount_def ReadUInt16_def WriteUInt16_def mark_row_def
      row_count_put64 row_count_put32 row_count_def[symmetric])

lemma AllocateSlotInfo_row:
  assumes "page_ok E p" "i < maxSlots p"
  shows "AllocateSlotInfo E p i
         = Some (slotinfoToOffset E i,
                 mark_row E p (unat i) 1 (util_PackLocation E 1 1) (row_count E (Record p) + 1))"
  unfolding AllocateSlotInfo_def Let_def by (rule mark_row_eq[OF assms])

lemma ReleaseSlotInfo_row:
  assumes "page_ok E p" "i < maxSlots p"
  shows "ReleaseSlotInfo E p i
         = Some (slotinfoToOffset E i,
                 mark_row E p (unat i) 0 (util_PackLocation E 0 0) (row_count E (Record p) - 1))"
  unfolding ReleaseSlotInfo_def Let_def by (rule mark_row_eq[OF assms])

lemma mark_row_rows:
  assumes "page_ok E p" "i < unat (maxSlots p)"
  shows "row_size E (Record (mark_row E p i s loc c)) j = (if j = i then s else row_size E (Record p) j)"
    and "row_location E (Record (mark_row E p i s loc c)) j
         = (if j = i then loc else row_location E (Record p) j)"
    and "row_count E (Record (mark_row E p i s loc c)) = c"
    and "maxSlots (mark_row E p i s loc c) = maxSlots p"
    and "maxAcceptableWaste (mark_row E p i s loc c) = maxAcceptableWaste p"
    and "length (Record (mark_row E p i s loc c)) = length (Record p)"
    and "sizeCache (mark_row E p i s loc c) = (sizeCache p)[i := s]"
proof -
  have env: "env_ok E" using assms(1) by (simp add: page_ok_def)
  note e = row_end(1)[OF assms]
  show "row_size E (Record (mark_row E p i s loc c)) j = (if j = i then s else row_size E (Record p) j)"
    using e by (simp add: mark_row_def row_size_put16 row_size_put64[OF env] row_size_put32[OF env])
  show "row_location E (Record (mark_row E p i s loc c)) j
         = (if j = i then loc else row_location E (Record p) j)"
    using e by (simp add: mark_row_def row_location_put16 row_location_put64[OF env]
        row_location_put32[OF env])
  show "row_count E (Record (mark_row E p i s loc c)) = c"
    using page_ok_count_inside[OF assms(1)] by (simp add: mark_row_def row_count_put16)
qed (simp_all add: mark_row_def)

lemma mark_row_ok:
  assumes "page_ok E p" "i < unat (maxSlots p)"
  shows "page_ok E (mark_row E p i s loc c)"
proof (rule page_okI)
  fix j assume "j < unat (maxSlots (mark_row E p i s loc c))"
  then have j: "j < unat (maxSlots p)" by (simp add: mark_row_def)
  then have "j < length (sizeCache p)" "i < length (sizeCache p)"
    using assms by (simp_all add: page_ok_def)
  then show "cache_entry_ok E (mark_row E p i s loc c) j"
    using page_ok_cache[OF assms(1) j]
    by (cases "j = i") (auto simp: cache_entry_ok_def mark_row_rows[OF assms])
qed (use assms(1) in \<open>simp_all add: page_ok_def mark_row_rows[OF assms]\<close>)

subsection \<open>The loops\<close>

lemma cache_only_refl: "cache_only p p"
  by (simp add: cache_only_def)

lemma cache_only_trans: "cache_only p p1 \<Longrightarrow> cache_only p1 p2 \<Longrightarrow> cache_only p p2"
  by (auto simp: cache_only_def)

lemma FreeSlotSize_cache_only:
  "FreeSlotSize E p offset = Some (v, p1) \<Longrightarrow> cache_only p p1"
  by (auto simp: FreeSlotSize_def Let_def cache_only_def nth_list_update
      split: if_splits Option.bind_splits)

lemma isAllocatedSlot_cache_only:
  "isAllocatedSlot E p i = Some (a, p1) \<Longrightarrow> cache_only p p1"
  by (auto simp: isAllocatedSlot_def Let_def split: Option.bind_splits
      dest: FreeSlotSize_cache_only)

lemma FirstFreeSlotInfo_loop_cache_only:
  "FirstFreeSlotInfo_loop E p i = Some (r, p') \<Longrightarrow> cache_only p p'"
proof (induction E p i rule: FirstFreeSlotInfo_loop.induct)
  case (1 E fpsp i)
  show ?case
  proof (cases "i < maxSlots fpsp")
    case False
    with "1.prems" show ?thesis by (simp add: cache_only_refl)
  next
    case True
    with "1.prems" obtain a p1 where s: "isAllocatedSlot E fpsp i = Some (a, p1)"
      by (auto split: option.splits)
    note c1 = isAllocatedSlot_cache_only[OF s]
    show ?thesis
    proof (cases a)
      case False
      with "1.prems" True s have "p' = p1" by simp
      with c1 show ?thesis by simp
    next
      case a: True
      with "1.prems" True s have "FirstFreeSlotInfo_loop E p1 (i + 1) = Some (r, p')" by simp
      with "1.IH"[OF True s refl] a have "cache_only p1 p'" by simp
      with c1 show ?thesis by (rule cache_only_trans)
    qed
  qed
qed

lemma FindSlot_loop_cache_only:
  "FindSlot_loop E p m i b w mx = Some (r, p') \<Longrightarrow> cache_only p p'"
proof (induction E p m i b w mx rule: FindSlot_loop.induct)
  case (1 E fpsp minSize i bestSlot bestSlotWaste maxSize)
  show ?case
  proof (cases "i < maxSlots fpsp")
    case False
    with "1.prems" show ?thesis by (simp add: cache_only_refl)
  next
    case True
    with "1.prems" obtain s p1 where s: "FreeSlotSize E fpsp (slotinfoToOffset E i) = Some (s, p1)"
      by (auto split: option.splits)
    note c1 = FreeSlotSize_cache_only[OF s]
    define mx1 where "mx1 = (if s > maxSize then s else maxSize)"
    consider (opt) "s - minSize < OPTIMAL_WASTE_MARGIN"
      | (best) "\<not> s - minSize < OPTIMAL_WASTE_MARGIN" "bestSlotWaste > s - minSize"
      | (skip) "\<not> s - minSize < OPTIMAL_WASTE_MARGIN" "\<not> bestSlotWaste > s - minSize"
      by blast
    then show ?thesis
    proof cases
      case opt
      with "1.prems" True s have "p' = p1" by (simp add: Let_def)
      with c1 show ?thesis by simp
    next
      case best
      with "1.prems" True s
      have "FindSlot_loop E p1 minSize (i + 1) (uint i) (s - minSize) mx1 = Some (r, p')"
        by (simp add: Let_def mx1_def)
      with "1.IH"(1)[OF True s refl refl refl] best
      have "cache_only p1 p'" by (simp add: mx1_def)
      with c1 show ?thesis by (rule cache_only_trans)
    next
      case skip
      with "1.prems" True s
      have "FindSlot_loop E p1 minSize (i + 1) bestSlot bestSlotWaste mx1 = Some (r, p')"
        by (simp add: Let_def mx1_def)
      with "1.IH"(2)[OF True s refl refl refl] skip
      have "cache_only p1 p'" by (simp add: mx1_def)
      with c1 show ?thesis by (rule cache_only_trans)
    qed
  qed
qed


lemma FreeSlotSize_row_ok:
  assumes "page_ok E p" "i < maxSlots p"
  obtains p1 where "FreeSlotSize E p (slotinfoToOffset E i) = Some (row_size E (Record p) (unat i), p1)"
    and "page_ok E p1" and "cache_only p p1"
proof -
  let ?p1 = "p\<lparr>sizeCache := (sizeCache p)[unat i := row_size E (Record p) (unat i)]\<rparr>"
  have 1: "FreeSlotSize E p (slotinfoToOffset E i) = Some (row_size E (Record p) (unat i), ?p1)"
    by (rule FreeSlotSize_row[OF assms])
  have 2: "page_ok E ?p1" by (rule page_ok_cache_update[OF assms(1)]) simp
  from 1 2 FreeSlotSize_cache_only[OF 1] that show ?thesis by blast
qed

lemma unat_Suc_row:
  fixes i m :: uint16
  assumes "i < m"
  shows "unat (i + 1) = Suc (unat i)" and "unat i < unat m"
  using assms by unat_arith+

lemma upt_rows:
  fixes i m :: uint16
  assumes "i < m"
  shows "[unat i..<unat m] = unat i # [unat (i + 1)..<unat m]"
  using unat_Suc_row[OF assms] by (simp add: upt_conv_Cons)

lemma upt_rows_end:
  fixes i m :: uint16
  assumes "\<not> i < m"
  shows "[unat i..<unat m] = []"
  using assms by (simp add: word_less_nat_alt)

lemma FirstFreeSlotInfo_loop_ok:
  "page_ok E p \<Longrightarrow>
   \<exists>p'. FirstFreeSlotInfo_loop E p i = Some (first_vacant E p (unat i), p') \<and> page_ok E p'"
proof (induction E p i rule: FirstFreeSlotInfo_loop.induct)
  case (1 E fpsp i)
  show ?case
  proof (cases "i < maxSlots fpsp")
    case False
    with "1.prems" show ?thesis by (simp add: first_vacant_def upt_rows_end)
  next
    case True
    from FreeSlotSize_row_ok[OF "1.prems" True] obtain p1
      where f: "FreeSlotSize E fpsp (slotinfoToOffset E i) = Some (row_size E (Record fpsp) (unat i), p1)"
        and ok1: "page_ok E p1" and c1: "cache_only fpsp p1" by blast
    then have s: "isAllocatedSlot E fpsp i = Some (row_size E (Record fpsp) (unat i) \<noteq> 0, p1)"
      by (simp add: isAllocatedSlot_def)
    from c1 have same: "Record p1 = Record fpsp" "maxSlots p1 = maxSlots fpsp"
      by (simp_all add: cache_only_def)
    show ?thesis
    proof (cases "row_size E (Record fpsp) (unat i) = 0")
      case z: True
      with True s ok1 show ?thesis
        by (simp add: first_vacant_def upt_rows[OF True])
    next
      case nz: False
      from "1.IH"[OF True s refl _ ok1] nz
      obtain p' where "FirstFreeSlotInfo_loop E p1 (i + 1) = Some (first_vacant E p1 (unat (i + 1)), p')"
        and "page_ok E p'" by auto
      with True s nz same show ?thesis
        by (simp add: first_vacant_def upt_rows[OF True])
    qed
  qed
qed

lemma FindSlot_loop_ok:
  "page_ok E p \<Longrightarrow> \<exists>r p'. FindSlot_loop E p m i b w mx = Some (r, p') \<and> page_ok E p'"
proof (induction E p m i b w mx rule: FindSlot_loop.induct)
  case (1 E fpsp minSize i bestSlot bestSlotWaste maxSize)
  show ?case
  proof (cases "i < maxSlots fpsp")
    case False
    with "1.prems" show ?thesis by simp
  next
    case True
    from FreeSlotSize_row_ok[OF "1.prems" True] obtain s p1
      where s: "FreeSlotSize E fpsp (slotinfoToOffset E i) = Some (s, p1)"
        and ok1: "page_ok E p1" by blast
    consider (opt) "s - minSize < OPTIMAL_WASTE_MARGIN"
      | (best) "\<not> s - minSize < OPTIMAL_WASTE_MARGIN" "bestSlotWaste > s - minSize"
      | (skip) "\<not> s - minSize < OPTIMAL_WASTE_MARGIN" "\<not> bestSlotWaste > s - minSize"
      by blast
    then show ?thesis
    proof cases
      case opt
      with True s ok1 show ?thesis by (simp add: Let_def)
    next
      case best
      with "1.IH"(1)[OF True s refl refl refl] ok1 True s show ?thesis
        by (simp add: Let_def)
    next
      case skip
      with "1.IH"(2)[OF True s refl refl refl] ok1 True s show ?thesis
        by (simp add: Let_def)
    qed
  qed
qed

lemma FindSlot_loop_rejected:
  "page_ok E p \<Longrightarrow>
   \<forall>j. unat i \<le> j \<and> j < unat (maxSlots p) \<longrightarrow> rejected E p m (row_size E (Record p) j) \<Longrightarrow>
   b \<noteq> - 1 \<longrightarrow> \<not> (w < maxAcceptableWaste p \<and> unat w < util_MAX_AVAILABLE_SIZE_DIFFERENCE E) \<Longrightarrow>
   \<exists>p'. FindSlot_loop E p m i b w mx
     = Some (- uint (fold max (map (row_size E (Record p)) [unat i..<unat (maxSlots p)]) mx), p')"
proof (induction E p m i b w mx rule: FindSlot_loop.induct)
  case (1 E fpsp minSize i bestSlot bestSlotWaste maxSize)
  show ?case
  proof (cases "i < maxSlots fpsp")
    case False
    with "1.prems" show ?thesis by (auto simp: FindSlot_end_def upt_rows_end)
  next
    case True
    from FreeSlotSize_row_ok[OF "1.prems"(1) True] obtain p1
      where s: "FreeSlotSize E fpsp (slotinfoToOffset E i) = Some (row_size E (Record fpsp) (unat i), p1)"
        and ok1: "page_ok E p1" and c1: "cache_only fpsp p1" by blast
    define s0 where "s0 = row_size E (Record fpsp) (unat i)"
    note s = s[folded s0_def]
    from c1 have same: "Record p1 = Record fpsp" "maxSlots p1 = maxSlots fpsp"
      "maxAcceptableWaste p1 = maxAcceptableWaste fpsp"
      by (simp_all add: cache_only_def)
    have rej: "rejected E fpsp minSize s0"
      using "1.prems"(2) unat_Suc_row(2)[OF True] by (simp add: s0_def)
    have rest: "\<forall>j. unat (i + 1) \<le> j \<and> j < unat (maxSlots p1) \<longrightarrow>
        rejected E p1 minSize (row_size E (Record p1) j)"
      using "1.prems"(2) unat_Suc_row(1)[OF True] same by (simp add: rejected_def)
    have mx: "max maxSize s0 = (if s0 > maxSize then s0 else maxSize)"
      by (auto simp: max_def)
    consider (best) "bestSlotWaste > s0 - minSize" | (skip) "\<not> bestSlotWaste > s0 - minSize"
      by blast
    then show ?thesis
    proof cases
      case best
      have inv: "uint i \<noteq> - 1 \<longrightarrow> \<not> (s0 - minSize < maxAcceptableWaste p1 \<and>
          unat (s0 - minSize) < util_MAX_AVAILABLE_SIZE_DIFFERENCE E)"
        using rej same by (simp add: rejected_def)
      from "1.IH"(1)[OF True s refl refl refl _ _ best ok1 rest inv] rej
      obtain p' where "FindSlot_loop E p1 minSize (i + 1) (uint i) (s0 - minSize)
           (if s0 > maxSize then s0 else maxSize)
         = Some (- uint (fold max (map (row_size E (Record p1)) [unat (i + 1)..<unat (maxSlots p1)])
                   (if s0 > maxSize then s0 else maxSize)), p')"
        by (auto simp: rejected_def)
      with True s rej best same mx show ?thesis
        by (simp add: Let_def upt_rows[OF True] rejected_def s0_def[symmetric] max.commute)
    next
      case skip
      have inv: "bestSlot \<noteq> - 1 \<longrightarrow> \<not> (bestSlotWaste < maxAcceptableWaste p1 \<and>
          unat bestSlotWaste < util_MAX_AVAILABLE_SIZE_DIFFERENCE E)"
        using "1.prems"(3) same by simp
      from "1.IH"(2)[OF True s refl refl refl _ _ skip ok1 rest inv] rej
      obtain p' where "FindSlot_loop E p1 minSize (i + 1) bestSlot bestSlotWaste
           (if s0 > maxSize then s0 else maxSize)
         = Some (- uint (fold max (map (row_size E (Record p1)) [unat (i + 1)..<unat (maxSlots p1)])
                   (if s0 > maxSize then s0 else maxSize)), p')"
        by (auto simp: rejected_def)
      with True s rej skip same mx show ?thesis
        by (simp add: Let_def upt_rows[OF True] rejected_def s0_def[symmetric] max.commute)
    qed
  qed
qed

subsection \<open>The example pages\<close>

lemmas example_consts =
  example_env_def OFFSET_COUNT_def OFFSET_DATA_def SIZE_SHORT_def SLOT_INFO_SIZE_def
  row_offset_def row_size_def row_location_def row_count_def get16_def get32_def get64_def
  upt_conv_Cons

lemma example_page_ok: "page_ok example_env example_page"
  by (simp add: page_ok_def env_ok_def cache_entry_ok_def example_page_def example_consts)

lemma vacant_page_ok: "page_ok example_env vacant_page"
  by (simp add: page_ok_def env_ok_def cache_entry_ok_def vacant_page_def example_consts)


lemma example_row_sizes: "row_sizes example_env example_page = [0, 500, 50, 200]"
  by (simp add: row_sizes_def example_page_def example_consts)

lemma FreeSlotCount_ok: "page_ok E p \<Longrightarrow> FreeSlotCount E p = Some (row_count E (Record p))"
  using page_ok_count_inside[of E p] by (simp add: FreeSlotCount_def ReadUInt16_def row_count_def)

lemma FreeSlotSize_row_value:
  assumes "page_ok E p" "i < maxSlots p"
  shows "\<exists>p'. FreeSlotSize E p (slotinfoToOffset E i) = Some (row_size E (Record p) (unat i), p')"
  using FreeSlotSize_row[OF assms] by blast

lemma example_counts:
  "FreeSlotCount example_env example_page = Some 3"
  "FreeSlotCount example_env vacant_page = Some 0"
  "FreeSlotCount example_env full_count_page = Some 65535"
  by (simp_all add: FreeSlotCount_def ReadUInt16_def example_page_def vacant_page_def
      full_count_page_def example_consts)

lemma example_vacant_rows:
  "row_size example_env (Record example_page) (unat (0 :: uint16)) = 0"
  "row_size example_env (Record vacant_page) (unat (0 :: uint16)) = 0"
  "row_size example_env (Record vacant_page) (unat (1 :: uint16)) = 0"
  "row_size example_env (Record full_count_page) (unat (0 :: uint16)) = 0"
  by (simp_all add: example_page_def vacant_page_def full_count_page_def example_consts)

subsection \<open>Single calls and sequences of calls\<close>

lemma cache_only_rows:
  assumes "cache_only p p'"
  shows "Record p' = Record p" "maxSlots p' = maxSlots p"
    "maxAcceptableWaste p' = maxAcceptableWaste p"
  using assms by (simp_all add: cache_only_def)

lemma is_row_offsetD:
  assumes "is_row_offset E p offset"
  shows "offsetToSlotinfo E offset < maxSlots p"
    and "slotinfoToOffset E (offsetToSlotinfo E offset) = offset"
  using assms by (simp_all add: is_row_offset_def)

lemma is_row_offset_row:
  assumes "page_ok E p" "i < maxSlots p"
  shows "is_row_offset E p (slotinfoToOffset E i)"
  using assms by (simp add: is_row_offset_def offsetToSlotinfo_slotinfoToOffset[OF assms])

text \<open>
  What a call in range does to a well-formed page: it returns, the page stays well-formed,
  the rows it does not write keep their size and location.
\<close>

lemma exec_effect:
  assumes "page_ok E p" "in_range E p c"
  shows "\<exists>p'. exec E p c = Some p' \<and> page_ok E p' \<and> maxSlots p' = maxSlots p \<and>
           maxAcceptableWaste p' = maxAcceptableWaste p \<and>
           (\<not> claims_or_releases c \<longrightarrow> row_count E (Record p') = row_count E (Record p)) \<and>
           (\<forall>j. written_row E c \<noteq> Some j \<longrightarrow>
              row_size E (Record p') (unat j) = row_size E (Record p) (unat j) \<and>
              row_location E (Record p') (unat j) = row_location E (Record p) (unat j))"
proof (cases c)
  case Call_FreeSlotCount
  with assms show ?thesis by (simp add: FreeSlotCount_ok)
next
  case (Call_FreeSlotSize offset)
  with assms(2) have r: "is_row_offset E p offset" by simp
  from FreeSlotSize_row_ok[OF assms(1) is_row_offsetD(1)[OF r]] is_row_offsetD(2)[OF r]
  obtain v p1 where "FreeSlotSize E p offset = Some (v, p1)" "page_ok E p1" "cache_only p p1"
    by metis
  with Call_FreeSlotSize show ?thesis by (simp add: cache_only_rows)
next
  case (Call_SetFreeSlotSize offset sz)
  with assms(2) have r: "is_row_offset E p offset" by simp
  let ?i = "offsetToSlotinfo E offset"
  have lt: "unat ?i < unat (maxSlots p)"
    using is_row_offsetD(1)[OF r] by (simp add: word_less_nat_alt)
  have "SetFreeSlotSize E p offset sz = Some (set_size E p (unat ?i) sz)"
    using SetFreeSlotSize_row[OF assms(1) is_row_offsetD(1)[OF r]] is_row_offsetD(2)[OF r] by simp
  with Call_SetFreeSlotSize set_size_ok[OF assms(1) lt] set_size_rows[OF assms(1) lt]
  show ?thesis by (auto simp: word_unat_eq_iff)
next
  case (Call_AllocateSlotInfo i)
  with assms(2) have i: "i < maxSlots p" by simp
  then have lt: "unat i < unat (maxSlots p)" by (simp add: word_less_nat_alt)
  from Call_AllocateSlotInfo AllocateSlotInfo_row[OF assms(1) i]
    mark_row_ok[OF assms(1) lt] mark_row_rows[OF assms(1) lt]
  show ?thesis by (auto simp: word_unat_eq_iff)
next
  case (Call_ReleaseSlotInfo i)
  with assms(2) have i: "i < maxSlots p" by simp
  then have lt: "unat i < unat (maxSlots p)" by (simp add: word_less_nat_alt)
  from Call_ReleaseSlotInfo ReleaseSlotInfo_row[OF assms(1) i]
    mark_row_ok[OF assms(1) lt] mark_row_rows[OF assms(1) lt]
  show ?thesis by (auto simp: word_unat_eq_iff)
next
  case Call_FirstFreeSlotInfo
  from FirstFreeSlotInfo_loop_ok[OF assms(1), of 0] obtain r p'
    where f: "FirstFreeSlotInfo_loop E p 0 = Some (r, p')" and "page_ok E p'" by blast
  with Call_FirstFreeSlotInfo FirstFreeSlotInfo_loop_cache_only[OF f]
  show ?thesis by (simp add: FirstFreeSlotInfo_def cache_only_rows)
next
  case (Call_FindSlot minSize)
  from FindSlot_loop_ok[OF assms(1), of minSize 0 "- 1" "maxAcceptableWaste p + 1" 0] obtain r p'
    where f: "FindSlot_loop E p minSize 0 (- 1) (maxAcceptableWaste p + 1) 0 = Some (r, p')"
      and "page_ok E p'" by blast
  with Call_FindSlot FindSlot_loop_cache_only[OF f]
  show ?thesis by (simp add: FindSlot_def cache_only_rows)
qed

lemma in_range_maxSlots: "maxSlots p' = maxSlots p \<Longrightarrow> in_range E p' c = in_range E p c"
  by (cases c) (simp_all add: is_row_offset_def)

lemma run_effect:
  "page_ok E p \<Longrightarrow> list_all (in_range E p) cs \<Longrightarrow>
   \<exists>p'. run E p cs = Some p' \<and> page_ok E p' \<and> maxSlots p' = maxSlots p \<and>
     (\<forall>j. list_all (\<lambda>c. written_row E c \<noteq> Some j) cs \<longrightarrow>
        row_size E (Record p') (unat j) = row_size E (Record p) (unat j) \<and>
        row_location E (Record p') (unat j) = row_location E (Record p) (unat j))"
proof (induction cs arbitrary: p)
  case Nil
  then show ?case by simp
next
  case (Cons c cs)
  from Cons.prems have c: "in_range E p c" and cs: "list_all (in_range E p) cs" by simp_all
  from exec_effect[OF Cons.prems(1) c] obtain p1
    where e: "exec E p c = Some p1" and ok1: "page_ok E p1" and m1: "maxSlots p1 = maxSlots p"
      and rows1: "\<forall>j. written_row E c \<noteq> Some j \<longrightarrow>
              row_size E (Record p1) (unat j) = row_size E (Record p) (unat j) \<and>
              row_location E (Record p1) (unat j) = row_location E (Record p) (unat j)"
    by blast
  have "list_all (in_range E p1) cs"
    using cs in_range_maxSlots[OF m1] by (simp add: list_all_iff)
  from Cons.IH[OF ok1 this] obtain p'
    where r: "run E p1 cs = Some p'" and ok': "page_ok E p'" and m': "maxSlots p' = maxSlots p1"
      and rows': "\<forall>j. list_all (\<lambda>c. written_row E c \<noteq> Some j) cs \<longrightarrow>
        row_size E (Record p') (unat j) = row_size E (Record p1) (unat j) \<and>
        row_location E (Record p') (unat j) = row_location E (Record p1) (unat j)"
    by blast
  from e r ok' m' m1 rows1 rows' show ?case by auto
qed

lemma run_keeps_row:
  assumes "page_ok E p" "maxSlots p = maxSlots p0" "list_all (in_range E p0) cs"
    "list_all (\<lambda>c. written_row E c \<noteq> Some i) cs"
  shows "\<exists>q. run E p cs = Some q \<and> page_ok E q \<and> maxSlots q = maxSlots p \<and>
           row_size E (Record q) (unat i) = row_size E (Record p) (unat i) \<and>
           row_location E (Record q) (unat i) = row_location E (Record p) (unat i)"
proof -
  have "list_all (in_range E p) cs"
    using assms(3) in_range_maxSlots[OF assms(2)] by (simp add: list_all_iff)
  from run_effect[OF assms(1) this] assms(4) show ?thesis by blast
qed

lemma example_row_offsets:
  "slotinfoToOffset example_env 0 = 20" "slotinfoToOffset example_env 1 = 32"
  "slotinfoToOffset example_env 2 = 44" "slotinfoToOffset example_env 3 = 56"
  "offsetToSlotinfo example_env 20 = 0" "offsetToSlotinfo example_env 32 = 1"
  "offsetToSlotinfo example_env 44 = 2" "offsetToSlotinfo example_env 56 = 3"
  by (simp_all add: slotinfoToOffset_def offsetToSlotinfo_def example_consts)

lemma example_is_row_offset:
  "is_row_offset example_env example_page 20" "is_row_offset example_env example_page 32"
  "is_row_offset example_env example_page 44" "is_row_offset example_env example_page 56"
  by (simp_all add: is_row_offset_def example_row_offsets) (simp_all add: example_page_def)

subsection \<open>FindSlot on the example pages\<close>

lemma undersized_page_rows: "row_sizes example_env undersized_page = [1000, 3, 4294967295]"
  by (simp add: row_sizes_def undersized_page_def example_consts)

lemma FindSlot_undersized:
  "FindSlot example_env undersized_page 4294967295
     = Some (1, undersized_page\<lparr>sizeCache := [1000, 3, 0]\<rparr>)"
  by (simp add: FindSlot_def FreeSlotSize_def slotinfoToOffset_def offsetToSlotinfo_def
      ReadUInt32_def OPTIMAL_WASTE_MARGIN_def undersized_page_def example_consts)

lemma FindSlot_example_40:
  "FindSlot example_env example_page 40 = Some (2, example_page\<lparr>sizeCache := [0, 500, 50, 0]\<rparr>)"
  by (simp add: FindSlot_def FreeSlotSize_def slotinfoToOffset_def offsetToSlotinfo_def
      ReadUInt32_def OPTIMAL_WASTE_MARGIN_def example_page_def example_consts)

lemma FindSlot_example_600:
  "FindSlot example_env example_page 600 = Some (- 500, example_page\<lparr>sizeCache := [0, 500, 50, 200]\<rparr>)"
  by (simp add: FindSlot_def FindSlot_end_def FreeSlotSize_def slotinfoToOffset_def offsetToSlotinfo_def
      ReadUInt32_def OPTIMAL_WASTE_MARGIN_def example_page_def example_consts)

lemma FindSlot_example_20:
  "FindSlot example_env example_page 20 = Some (2, example_page\<lparr>sizeCache := [0, 500, 50, 0]\<rparr>)"
  by (simp add: FindSlot_def FreeSlotSize_def slotinfoToOffset_def offsetToSlotinfo_def
      ReadUInt32_def OPTIMAL_WASTE_MARGIN_def example_page_def example_consts)


lemma vacant_page_rows: "row_sizes example_env vacant_page = [0, 0]"
  by (simp add: row_sizes_def vacant_page_def example_consts)

lemma FindSlot_vacant:
  "FindSlot example_env vacant_page 1 = Some (0, vacant_page)"
  by (simp add: FindSlot_def FindSlot_end_def FreeSlotSize_def slotinfoToOffset_def
      offsetToSlotinfo_def ReadUInt32_def OPTIMAL_WASTE_MARGIN_def vacant_page_def example_consts)

subsection \<open>The largest size and the first vacant row\<close>

lemma fold_max_ge: "(a :: uint32) \<le> fold max xs a"
  by (induction xs arbitrary: a) (auto intro: order_trans[OF max.cobounded2])

lemma fold_max_upper: "x \<in> set xs \<Longrightarrow> (x :: uint32) \<le> fold max xs a"
proof (induction xs arbitrary: a)
  case Nil
  then show ?case by simp
next
  case (Cons y ys)
  show ?case
  proof (cases "x = y")
    case True
    then show ?thesis using fold_max_ge[of "max y a" ys] by (simp add: max.coboundedI1)
  next
    case False
    with Cons show ?thesis by simp
  qed
qed

lemma fold_max_mem: "fold max xs (a :: uint32) = a \<or> fold max xs a \<in> set xs"
proof (induction xs arbitrary: a)
  case Nil
  then show ?case by simp
next
  case (Cons y ys)
  from Cons.IH[of "max y a"] show ?case by (auto simp: max_def split: if_splits)
qed

lemma max_row_size_max:
  "\<forall>s \<in> set (row_sizes E p). s \<le> max_row_size E p"
  "max_row_size E p = 0 \<or> max_row_size E p \<in> set (row_sizes E p)"
  using fold_max_mem[of "row_sizes E p" 0]
  by (auto simp: max_row_size_def fold_max_upper)

lemma first_vacant_cases:
  "(first_vacant E p 0 = - 1 \<and> (\<forall>j < unat (maxSlots p). row_size E (Record p) j \<noteq> 0)) \<or>
   (\<exists>k < unat (maxSlots p). first_vacant E p 0 = int k \<and> row_size E (Record p) k = 0 \<and>
      (\<forall>j < k. row_size E (Record p) j \<noteq> 0))"
proof (cases "find (\<lambda>j. row_size E (Record p) j = 0) [0..<unat (maxSlots p)]")
  case None
  then have "first_vacant E p 0 = - 1" by (simp add: first_vacant_def)
  moreover from None have "\<forall>j < unat (maxSlots p). row_size E (Record p) j \<noteq> 0"
    by (auto simp: find_None_iff)
  ultimately show ?thesis by blast
next
  case (Some k)
  then have "k < unat (maxSlots p) \<and> row_size E (Record p) k = 0 \<and>
      (\<forall>j < k. row_size E (Record p) j \<noteq> 0)"
    by (auto simp: find_Some_iff)
  with Some show ?thesis by (auto simp: first_vacant_def)
qed

lemma rejected_row:
  assumes "\<not> fits_optimal m s" "\<not> fits_acceptable E p m s"
    "unat m + 128 \<le> 2 ^ 32" "unat m + unat (maxAcceptableWaste p) \<le> 2 ^ 32"
  shows "rejected E p m s"
proof (cases "m \<le> s")
  case True
  then have "unat (s - m) = unat s - unat m" by (simp add: unat_sub)
  with True assms(1,2) show ?thesis
    by (auto simp: rejected_def fits_optimal_def fits_acceptable_def OPTIMAL_WASTE_MARGIN_def
        word_less_nat_alt)
next
  case False
  then have lt: "unat s < unat m" by (simp add: word_le_nat_alt)
  have "unat (s - m) = 2 ^ 32 + unat s - unat m"
    using lt by (simp add: unat_sub_if')
  with lt assms(3,4) show ?thesis
    by (auto simp: rejected_def OPTIMAL_WASTE_MARGIN_def word_less_nat_alt)
qed

lemma FindSlot_rejected:
  assumes "page_ok E p"
    and "\<forall>s \<in> set (row_sizes E p). rejected E p minSize s"
  shows "\<exists>p'. FindSlot E p minSize = Some (- uint (max_row_size E p), p')"
proof -
  have "\<forall>j. unat (0 :: uint16) \<le> j \<and> j < unat (maxSlots p) \<longrightarrow>
      rejected E p minSize (row_size E (Record p) j)"
    using assms(2) by (simp add: row_sizes_def)
  from FindSlot_loop_rejected[OF assms(1) this, of "- 1" "maxAcceptableWaste p + 1" 0]
  show ?thesis by (simp add: FindSlot_def max_row_size_def row_sizes_def)
qed

subsection \<open>The number of rows in use\<close>

lemma length_row_sizes: "length (row_sizes E p) = unat (maxSlots p)"
  by (simp add: row_sizes_def)

lemma nth_row_sizes: "j < unat (maxSlots p) \<Longrightarrow> row_sizes E p ! j = row_size E (Record p) j"
  by (simp add: row_sizes_def)

lemma row_sizes_update:
  assumes "maxSlots p' = maxSlots p"
    and "\<And>j. j < unat (maxSlots p) \<Longrightarrow>
           row_size E (Record p') j = (if j = i then s else row_size E (Record p) j)"
  shows "row_sizes E p' = (row_sizes E p)[i := s]"
  using assms by (intro nth_equalityI) (auto simp: length_row_sizes nth_row_sizes nth_list_update)

lemma row_sizes_same:
  assumes "maxSlots p' = maxSlots p"
    and "\<And>j. j < unat (maxSlots p) \<Longrightarrow> row_size E (Record p') j = row_size E (Record p) j"
  shows "row_sizes E p' = row_sizes E p"
  using assms by (intro nth_equalityI) (auto simp: length_row_sizes nth_row_sizes)

lemma filter_update_length:
  "i < length xs \<Longrightarrow>
   length (filter P (xs[i := v])) + (if P (xs ! i) then 1 else 0)
   = length (filter P xs) + (if P v then 1 else 0)"
proof (induction xs arbitrary: i)
  case Nil
  then show ?case by simp
next
  case (Cons x xs)
  then show ?case by (cases i) auto
qed

lemma rows_in_use_le: "rows_in_use E p \<le> unat (maxSlots p)"
  using length_filter_le[of "\<lambda>s. s \<noteq> 0" "row_sizes E p"]
  by (simp add: rows_in_use_def length_row_sizes)

lemma rows_in_use_vacant:
  assumes "i < unat (maxSlots p)" "row_size E (Record p) i = 0"
  shows "rows_in_use E p < unat (maxSlots p)"
proof -
  have "row_sizes E p ! i \<in> set (row_sizes E p)"
    using assms(1) by (simp add: length_row_sizes)
  then have "\<exists>s \<in> set (row_sizes E p). \<not> s \<noteq> 0"
    using assms by (auto simp: nth_row_sizes)
  then have "length (filter (\<lambda>s. s \<noteq> 0) (row_sizes E p)) < length (row_sizes E p)"
    by (intro length_filter_less) auto
  then show ?thesis by (simp add: rows_in_use_def length_row_sizes)
qed

lemma rows_in_use_update:
  assumes "i < unat (maxSlots p)" "row_sizes E p' = (row_sizes E p)[i := s]"
  shows "rows_in_use E p' + (if row_size E (Record p) i \<noteq> 0 then 1 else 0)
         = rows_in_use E p + (if s \<noteq> 0 then 1 else 0)"
  using filter_update_length[of i "row_sizes E p" "\<lambda>s. s \<noteq> 0" s] assms
  by (simp add: rows_in_use_def length_row_sizes nth_row_sizes)

lemma pre_in_range: "pre E p c \<Longrightarrow> in_range E p c"
  by (cases c) simp_all

lemma unat_row_index:
  fixes m :: uint16
  assumes "j < unat m"
  shows "unat (of_nat j :: uint16) = j"
proof -
  have "unat m < 65536" using unsigned_less[of m, where 'a = nat] by simp
  with assms show ?thesis by (simp add: unat_of_nat16)
qed

text \<open>A call that keeps the row count right, on a page whose count is right.\<close>

lemma exec_count_ok:
  assumes "page_ok E p" "count_ok E p" "pre E p c"
  shows "\<exists>p'. exec E p c = Some p' \<and> page_ok E p' \<and> count_ok E p'"
proof -
  note r = pre_in_range[OF assms(3)]
  from exec_effect[OF assms(1) r] obtain p'
    where e: "exec E p c = Some p'" and ok': "page_ok E p'" and m: "maxSlots p' = maxSlots p"
      and cnt: "\<not> claims_or_releases c \<longrightarrow> row_count E (Record p') = row_count E (Record p)"
      and rows: "\<forall>j. written_row E c \<noteq> Some j \<longrightarrow>
              row_size E (Record p') (unat j) = row_size E (Record p) (unat j)"
    by blast
  have other: "row_size E (Record p') j = row_size E (Record p) j"
    if "j < unat (maxSlots p)" "written_row E c \<noteq> Some (of_nat j)" for j
    using rows that(2) unat_row_index[OF that(1)] by (metis (no_types))
  have "count_ok E p'"
  proof (cases c)
    case (Call_SetFreeSlotSize offset sz)
    let ?i = "offsetToSlotinfo E offset"
    from assms(3) Call_SetFreeSlotSize have ro: "is_row_offset E p offset" and nz: "sz \<noteq> 0"
      and old: "row_size E (Record p) (unat ?i) \<noteq> 0" by simp_all
    have lt: "unat ?i < unat (maxSlots p)"
      using is_row_offsetD(1)[OF ro] by (simp add: word_less_nat_alt)
    have "SetFreeSlotSize E p offset sz = Some (set_size E p (unat ?i) sz)"
      using SetFreeSlotSize_row[OF assms(1) is_row_offsetD(1)[OF ro]] is_row_offsetD(2)[OF ro] by simp
    with e Call_SetFreeSlotSize have p': "p' = set_size E p (unat ?i) sz" by simp
    have "row_sizes E p' = (row_sizes E p)[unat ?i := sz]"
      by (rule row_sizes_update[OF m]) (simp add: p' set_size_rows(1)[OF assms(1) lt])
    from rows_in_use_update[OF lt this] nz old have "rows_in_use E p' = rows_in_use E p" by simp
    with assms(2) cnt Call_SetFreeSlotSize show ?thesis by (simp add: count_ok_def)
  next
    case (Call_AllocateSlotInfo i)
    from assms(3) Call_AllocateSlotInfo have i: "i < maxSlots p"
      and old: "row_size E (Record p) (unat i) = 0" by simp_all
    have lt: "unat i < unat (maxSlots p)" using i by (simp add: word_less_nat_alt)
    from e Call_AllocateSlotInfo AllocateSlotInfo_row[OF assms(1) i]
    have p': "p' = mark_row E p (unat i) 1 (util_PackLocation E 1 1) (row_count E (Record p) + 1)"
      by simp
    have "row_sizes E p' = (row_sizes E p)[unat i := 1]"
      by (rule row_sizes_update[OF m]) (simp add: p' mark_row_rows(1)[OF assms(1) lt])
    from rows_in_use_update[OF lt this] old
    have n: "rows_in_use E p' = rows_in_use E p + 1" by simp
    have "rows_in_use E p < unat (maxSlots p)" by (rule rows_in_use_vacant[OF lt old])
    moreover have "unat (maxSlots p) < 65536"
      using unsigned_less[of "maxSlots p", where 'a = nat] by simp
    ultimately have "unat (row_count E (Record p)) + unat (1 :: uint16) < 2 ^ LENGTH(16)"
      using assms(2) by (simp add: count_ok_def)
    then have "unat (row_count E (Record p) + 1) = unat (row_count E (Record p)) + 1"
      by (simp add: unat_add_lem[THEN iffD1])
    moreover have "row_count E (Record p') = row_count E (Record p) + 1"
      unfolding p' by (rule mark_row_rows(3)[OF assms(1) lt])
    ultimately show ?thesis using assms(2) n by (simp add: count_ok_def)
  next
    case (Call_ReleaseSlotInfo i)
    from assms(3) Call_ReleaseSlotInfo have i: "i < maxSlots p"
      and old: "row_size E (Record p) (unat i) \<noteq> 0" by simp_all
    have lt: "unat i < unat (maxSlots p)" using i by (simp add: word_less_nat_alt)
    from e Call_ReleaseSlotInfo ReleaseSlotInfo_row[OF assms(1) i]
    have p': "p' = mark_row E p (unat i) 0 (util_PackLocation E 0 0) (row_count E (Record p) - 1)"
      by simp
    have "row_sizes E p' = (row_sizes E p)[unat i := 0]"
      by (rule row_sizes_update[OF m]) (simp add: p' mark_row_rows(1)[OF assms(1) lt])
    from rows_in_use_update[OF lt this] old
    have n: "rows_in_use E p' + 1 = rows_in_use E p" by simp
    then have "1 \<le> unat (row_count E (Record p))" using assms(2) by (simp add: count_ok_def)
    then have "unat (row_count E (Record p) - 1) = unat (row_count E (Record p)) - 1"
      by (simp add: unat_sub word_le_nat_alt)
    moreover have "row_count E (Record p') = row_count E (Record p) - 1"
      unfolding p' by (rule mark_row_rows(3)[OF assms(1) lt])
    ultimately show ?thesis using assms(2) n by (simp add: count_ok_def)
  next
    case Call_FreeSlotCount
    then have "row_sizes E p' = row_sizes E p"
      using other by (intro row_sizes_same[OF m]) simp
    with cnt Call_FreeSlotCount assms(2) show ?thesis by (simp add: count_ok_def rows_in_use_def)
  next
    case (Call_FreeSlotSize offset)
    then have "row_sizes E p' = row_sizes E p"
      using other by (intro row_sizes_same[OF m]) simp
    with cnt Call_FreeSlotSize assms(2) show ?thesis by (simp add: count_ok_def rows_in_use_def)
  next
    case Call_FirstFreeSlotInfo
    then have "row_sizes E p' = row_sizes E p"
      using other by (intro row_sizes_same[OF m]) simp
    with cnt Call_FirstFreeSlotInfo assms(2) show ?thesis by (simp add: count_ok_def rows_in_use_def)
  next
    case (Call_FindSlot minSize)
    then have "row_sizes E p' = row_sizes E p"
      using other by (intro row_sizes_same[OF m]) simp
    with cnt Call_FindSlot assms(2) show ?thesis by (simp add: count_ok_def rows_in_use_def)
  qed
  with e ok' show ?thesis by blast
qed

lemma run_count_ok:
  "page_ok E p \<Longrightarrow> count_ok E p \<Longrightarrow> admissible E p cs \<Longrightarrow>
   \<exists>p'. run E p cs = Some p' \<and> page_ok E p' \<and> count_ok E p'"
proof (induction cs arbitrary: p)
  case Nil
  then show ?case by simp
next
  case (Cons c cs)
  from Cons.prems(3) have pre: "pre E p c" by simp
  from exec_count_ok[OF Cons.prems(1,2) pre] obtain p1
    where e: "exec E p c = Some p1" and ok1: "page_ok E p1" and c1: "count_ok E p1" by blast
  with Cons.prems(3) have "admissible E p1 cs" by simp
  from Cons.IH[OF ok1 c1 this] e show ?case by simp
qed

subsection \<open>The constructor\<close>

lemma NewFreePhysicalSlotPage_ok:
  assumes "env_ok E" "OFFSET_DATA E \<le> length d" "length d \<le> 65536"
    and "NewFreePhysicalSlotPage E d = Some p"
  shows "page_ok E p" and "Record p = d"
proof -
  define k where "k = (length d - OFFSET_DATA E) div SLOT_INFO_SIZE E"
  have S: "12 \<le> SLOT_INFO_SIZE E" using assms(1) by (simp add: env_ok_def SLOT_INFO_SIZE_def)
  have n: "int (length d) - int (OFFSET_DATA E) = int (length d - OFFSET_DATA E)"
    using assms(2) by simp
  have q: "sgn (int (length d - OFFSET_DATA E)) *
      (\<bar>int (length d - OFFSET_DATA E)\<bar> div int (SLOT_INFO_SIZE E)) = int k"
    by (cases "length d - OFFSET_DATA E = 0") (simp_all add: k_def zdiv_int)
  have "NewFreePhysicalSlotPage E d =
      Option.bind (checkFreePhysicalSlotPageMagic E d)
        (\<lambda>_. Some \<lparr>Record = d, maxSlots = word_of_int (int k),
           maxAcceptableWaste = of_nat (length d div 4), sizeCache = replicate k 0\<rparr>)"
    unfolding NewFreePhysicalSlotPage_def Let_def n q by simp
  with assms(4) have p: "p = \<lparr>Record = d, maxSlots = word_of_int (int k),
      maxAcceptableWaste = of_nat (length d div 4), sizeCache = replicate k 0\<rparr>"
    by (cases "checkFreePhysicalSlotPageMagic E d") simp_all
  then show "Record p = d" by simp
  have "k * SLOT_INFO_SIZE E \<le> length d - OFFSET_DATA E"
    unfolding k_def by simp
  then have inside: "row_offset E k \<le> length d" using assms(2) by (simp add: row_offset_def)
  have "k * 12 \<le> k * SLOT_INFO_SIZE E" using S by (rule mult_le_mono2)
  with inside assms(3) have "k < 65536" unfolding row_offset_def by linarith
  then have u: "unat (word_of_int (int k) :: uint16) = k" by (simp add: unat_of_nat16)
  show "page_ok E p"
  proof (rule page_okI)
    fix i assume "i < unat (maxSlots p)"
    then have "i < k" by (simp only: p u FreePhysicalSlotPage.simps)
    then show "cache_entry_ok E p i" by (simp add: cache_entry_ok_def p)
  qed (use assms(1,3) inside in \<open>simp_all only: p u FreePhysicalSlotPage.simps length_replicate\<close>)
qed

subsection \<open>FindSlot where the waste does not wrap around\<close>

lemma waste_optimal_iff:
  assumes "unat m + 128 \<le> 2 ^ 32"
  shows "s - m < OPTIMAL_WASTE_MARGIN \<longleftrightarrow> fits_optimal m s"
proof (cases "m \<le> s")
  case True
  then have "unat (s - m) = unat s - unat m" by (simp add: unat_sub)
  with True show ?thesis
    by (simp add: fits_optimal_def OPTIMAL_WASTE_MARGIN_def word_less_nat_alt)
next
  case False
  then have lt: "unat s < unat m" by (simp add: word_le_nat_alt)
  have "unat (s - m) = 2 ^ 32 + unat s - unat m"
    using lt by (simp add: unat_sub_if')
  with lt assms False show ?thesis
    by (simp add: fits_optimal_def OPTIMAL_WASTE_MARGIN_def word_less_nat_alt)
qed

lemma waste_acceptable_fits:
  assumes "unat m + unat a \<le> 2 ^ 32" "s - m < (a :: uint32)"
  shows "m \<le> s"
proof (rule ccontr)
  assume "\<not> m \<le> s"
  then have lt: "unat s < unat m" by (simp add: word_le_nat_alt)
  have "unat (s - m) = 2 ^ 32 + unat s - unat m"
    using lt by (simp add: unat_sub_if')
  with lt assms show False by (simp add: word_less_nat_alt)
qed

text \<open>
  For requests of at most \<open>2 ^ 32 - 128\<close> bytes the optimal margin is first-fit: when some
  row from row \<open>i\<close> on is within the margin, the loop returns such a row.
\<close>

lemma FindSlot_loop_optimal:
  "page_ok E p \<Longrightarrow> unat m + 128 \<le> 2 ^ 32 \<Longrightarrow>
   \<exists>j. unat i \<le> j \<and> j < unat (maxSlots p) \<and> fits_optimal m (row_size E (Record p) j) \<Longrightarrow>
   \<exists>k p'. FindSlot_loop E p m i b w mx = Some (int k, p') \<and> k < unat (maxSlots p) \<and>
     fits_optimal m (row_size E (Record p) k)"
proof (induction E p m i b w mx rule: FindSlot_loop.induct)
  case (1 E fpsp minSize i bestSlot bestSlotWaste maxSize)
  from "1.prems"(3) obtain j where j: "unat i \<le> j" "j < unat (maxSlots fpsp)"
    "fits_optimal minSize (row_size E (Record fpsp) j)" by blast
  then have True: "i < maxSlots fpsp" by (simp add: word_less_nat_alt)
  from FreeSlotSize_row_ok[OF "1.prems"(1) True] obtain p1
    where s: "FreeSlotSize E fpsp (slotinfoToOffset E i) = Some (row_size E (Record fpsp) (unat i), p1)"
      and ok1: "page_ok E p1" and c1: "cache_only fpsp p1" by blast
  define s0 where "s0 = row_size E (Record fpsp) (unat i)"
  note s = s[folded s0_def]
  from c1 have same: "Record p1 = Record fpsp" "maxSlots p1 = maxSlots fpsp"
    by (simp_all add: cache_only_def)
  note w = waste_optimal_iff[OF "1.prems"(2), of s0]
  show ?case
  proof (cases "fits_optimal minSize s0")
    case opt: True
    with True s w unat_Suc_row(2)[OF True] show ?thesis
      by (auto simp: Let_def s0_def[symmetric] intro!: exI[of _ "unat i"])
  next
    case nopt: False
    with j have "j \<noteq> unat i" by (auto simp: s0_def)
    with j unat_Suc_row(1)[OF True] same
    have rest: "\<exists>j. unat (i + 1) \<le> j \<and> j < unat (maxSlots p1) \<and>
        fits_optimal minSize (row_size E (Record p1) j)"
      by (auto intro!: exI[of _ j])
    from nopt w have nw: "\<not> s0 - minSize < OPTIMAL_WASTE_MARGIN" by simp
    consider (best) "bestSlotWaste > s0 - minSize" | (skip) "\<not> bestSlotWaste > s0 - minSize"
      by blast
    then show ?thesis
    proof cases
      case best
      from "1.IH"(1)[OF True s refl refl refl _ nw best ok1 "1.prems"(2) rest]
      obtain k p' where "FindSlot_loop E p1 minSize (i + 1) (uint i) (s0 - minSize)
           (if s0 > maxSize then s0 else maxSize) = Some (int k, p')"
        "k < unat (maxSlots p1)" "fits_optimal minSize (row_size E (Record p1) k)"
        by auto
      with True s nw best same show ?thesis by (auto simp: Let_def)
    next
      case skip
      from "1.IH"(2)[OF True s refl refl refl _ nw skip ok1 "1.prems"(2) rest]
      obtain k p' where "FindSlot_loop E p1 minSize (i + 1) bestSlot bestSlotWaste
           (if s0 > maxSize then s0 else maxSize) = Some (int k, p')"
        "k < unat (maxSlots p1)" "fits_optimal minSize (row_size E (Record p1) k)"
        by auto
      with True s nw skip same show ?thesis by (auto simp: Let_def)
    qed
  qed
qed

text \<open>
  For requests of at most \<open>2 ^ 32 - 128\<close> and at most \<open>2 ^ 32 - maxAcceptableWaste\<close> bytes
  the loop returns the index of a row that fits, or the negated largest size.
\<close>

lemma FindSlot_loop_fits:
  "page_ok E p \<Longrightarrow> unat m + 128 \<le> 2 ^ 32 \<Longrightarrow> unat m + unat (maxAcceptableWaste p) \<le> 2 ^ 32 \<Longrightarrow>
   b = - 1 \<or> (\<exists>k < unat (maxSlots p). b = int k \<and>
      (w < maxAcceptableWaste p \<longrightarrow> m \<le> row_size E (Record p) k)) \<Longrightarrow>
   \<exists>r p'. FindSlot_loop E p m i b w mx = Some (r, p') \<and>
     ((\<exists>k < unat (maxSlots p). r = int k \<and> m \<le> row_size E (Record p) k) \<or>
      r = - uint (fold max (map (row_size E (Record p)) [unat i..<unat (maxSlots p)]) mx))"
proof (induction E p m i b w mx rule: FindSlot_loop.induct)
  case (1 E fpsp minSize i bestSlot bestSlotWaste maxSize)
  show ?case
  proof (cases "i < maxSlots fpsp")
    case False
    with "1.prems"(4) show ?thesis by (auto simp: FindSlot_end_def upt_rows_end)
  next
    case True
    from FreeSlotSize_row_ok[OF "1.prems"(1) True] obtain p1
      where s: "FreeSlotSize E fpsp (slotinfoToOffset E i) = Some (row_size E (Record fpsp) (unat i), p1)"
        and ok1: "page_ok E p1" and c1: "cache_only fpsp p1" by blast
    define s0 where "s0 = row_size E (Record fpsp) (unat i)"
    note s = s[folded s0_def]
    from c1 have same: "Record p1 = Record fpsp" "maxSlots p1 = maxSlots fpsp"
      "maxAcceptableWaste p1 = maxAcceptableWaste fpsp"
      by (simp_all add: cache_only_def)
    note lt = unat_Suc_row(2)[OF True]
    have mx: "max maxSize s0 = (if s0 > maxSize then s0 else maxSize)"
      by (auto simp: max_def)
    have bound1: "unat minSize + unat (maxAcceptableWaste p1) \<le> 2 ^ 32"
      using "1.prems"(3) same by simp
    show ?thesis
    proof (cases "s0 - minSize < OPTIMAL_WASTE_MARGIN")
      case opt: True
      then have "minSize \<le> s0"
        using waste_optimal_iff[OF "1.prems"(2), of s0] by (simp add: fits_optimal_def)
      with True s opt lt show ?thesis
        by (auto simp: Let_def s0_def[symmetric] intro!: exI[of _ "unat i"])
    next
      case nw: False
      consider (best) "bestSlotWaste > s0 - minSize" | (skip) "\<not> bestSlotWaste > s0 - minSize"
        by blast
      then show ?thesis
      proof cases
        case best
        have "s0 - minSize < maxAcceptableWaste p1 \<longrightarrow> minSize \<le> s0"
          using waste_acceptable_fits[OF bound1] by blast
        then have inv: "uint i = - 1 \<or> (\<exists>k < unat (maxSlots p1). uint i = int k \<and>
            (s0 - minSize < maxAcceptableWaste p1 \<longrightarrow> minSize \<le> row_size E (Record p1) k))"
          using lt same by (auto simp: s0_def intro!: exI[of _ "unat i"])
        from "1.IH"(1)[OF True s refl refl refl _ nw best ok1 "1.prems"(2) bound1 inv]
        obtain r p' where "FindSlot_loop E p1 minSize (i + 1) (uint i) (s0 - minSize)
             (if s0 > maxSize then s0 else maxSize) = Some (r, p')"
          "(\<exists>k < unat (maxSlots p1). r = int k \<and> minSize \<le> row_size E (Record p1) k) \<or>
           r = - uint (fold max (map (row_size E (Record p1)) [unat (i + 1)..<unat (maxSlots p1)])
                   (if s0 > maxSize then s0 else maxSize))"
          by auto
        with True s nw best same mx show ?thesis
          by (simp add: Let_def upt_rows[OF True] s0_def[symmetric] max.commute)
      next
        case skip
        have inv: "bestSlot = - 1 \<or> (\<exists>k < unat (maxSlots p1). bestSlot = int k \<and>
            (bestSlotWaste < maxAcceptableWaste p1 \<longrightarrow> minSize \<le> row_size E (Record p1) k))"
          using "1.prems"(4) same by simp
        from "1.IH"(2)[OF True s refl refl refl _ nw skip ok1 "1.prems"(2) bound1 inv]
        obtain r p' where "FindSlot_loop E p1 minSize (i + 1) bestSlot bestSlotWaste
             (if s0 > maxSize then s0 else maxSize) = Some (r, p')"
          "(\<exists>k < unat (maxSlots p1). r = int k \<and> minSize \<le> row_size E (Record p1) k) \<or>
           r = - uint (fold max (map (row_size E (Record p1)) [unat (i + 1)..<unat (maxSlots p1)])
                   (if s0 > maxSize then s0 else maxSize))"
          by auto
        with True s nw skip same mx show ?thesis
          by (simp add: Let_def upt_rows[OF True] s0_def[symmetric] max.commute)
      qed
    qed
  qed
qed

lemma FindSlot_fits_below_wrap:
  assumes "page_ok E p" "unat minSize + 128 \<le> 2 ^ 32"
    "unat minSize + unat (maxAcceptableWaste p) \<le> 2 ^ 32"
  shows "\<exists>r p'. FindSlot E p minSize = Some (r, p') \<and>
     ((\<exists>k < unat (maxSlots p). r = int k \<and> minSize \<le> row_size E (Record p) k) \<or>
      r = - uint (max_row_size E p))"
  using FindSlot_loop_fits[OF assms, of "- 1" "maxAcceptableWaste p + 1" 0 0]
  by (simp add: FindSlot_def max_row_size_def row_sizes_def)

lemma FindSlot_optimal_below_wrap:
  assumes "page_ok E p" "unat minSize + 128 \<le> 2 ^ 32"
    "\<exists>s \<in> set (row_sizes E p). fits_optimal minSize s"
  shows "\<exists>k p'. FindSlot E p minSize = Some (int k, p') \<and> k < unat (maxSlots p) \<and>
     fits_optimal minSize (row_size E (Record p) k)"
proof -
  from assms(3) have "\<exists>j. unat (0 :: uint16) \<le> j \<and> j < unat (maxSlots p) \<and>
      fits_optimal minSize (row_size E (Record p) j)"
    by (auto simp: row_sizes_def)
  from FindSlot_loop_optimal[OF assms(1,2) this] show ?thesis by (simp add: FindSlot_def)
qed

text \<open>The example pages are pages as the constructor returns them.\<close>

lemma example_caches:
  "replicate 4 (0 :: uint32) = [0, 0, 0, 0]" "replicate 3 (0 :: uint32) = [0, 0, 0]"
  "replicate 2 (0 :: uint32) = [0, 0]"
  by (simp_all add: numeral_eq_Suc)

lemma example_pages_constructed:
  "NewFreePhysicalSlotPage example_env (Record example_page) = Some example_page"
  "NewFreePhysicalSlotPage example_env (Record vacant_page) = Some vacant_page"
  "NewFreePhysicalSlotPage example_env (Record full_count_page) = Some full_count_page"
  "NewFreePhysicalSlotPage example_env (Record undersized_page) = Some undersized_page"
  by (simp_all add: NewFreePhysicalSlotPage_def checkFreePhysicalSlotPageMagic_def ReadUInt16_def
      example_page_def vacant_page_def full_count_page_def undersized_page_def
      example_env_def OFFSET_COUNT_def OFFSET_DATA_def SIZE_SHORT_def SLOT_INFO_SIZE_def
      get16_def example_caches)

section \<open>The claims\<close>

text \<open>
  C1: \<^verbatim>\<open>FindSlot(minSize)\<close> never returns a row whose size on disk is below \<open>minSize\<close>. The
  code does: the waste is computed in \<open>uint32\<close>, the test \<^verbatim>\<open>waste >= 0\<close> for "the block
  would fit" is always true, and the difference of a smaller size wraps around to a small
  waste when \<open>minSize\<close> is close to \<open>2 ^ 32\<close>. On a page with rows of sizes 1000, 3 and
  4294967295, \<^verbatim>\<open>FindSlot(4294967295)\<close> returns row 1, whose size is 3. For requests
  further from \<open>2 ^ 32\<close> a returned row does fit (lemma \<open>FindSlot_fits_below_wrap\<close>).
\<close>

theorem FindSlot_returns_undersized_row:
  "FindSlot example_env undersized_page 4294967295
     = Some (1, undersized_page\<lparr>sizeCache := [1000, 3, 0]\<rparr>) \<and>
   row_size example_env (Record undersized_page) 1 = 3 \<and>
   (3 :: uint32) < 4294967295"
  by (simp add: FindSlot_undersized) (simp add: undersized_page_def example_consts)

text \<open>
  C2: if some row has a size \<open>s\<close> with \<open>s \<ge> minSize\<close> and \<open>s - minSize < 128\<close>, \<^verbatim>\<open>FindSlot\<close>
  returns a row with such a size. The code does not, by the same wrap-around: on the page
  with rows of sizes 1000, 3 and 4294967295, row 2 fits a request of 4294967295 bytes
  with waste 0, and \<^verbatim>\<open>FindSlot(4294967295)\<close> returns row 1, whose size 3 does not fit.
  For requests of at most \<open>2 ^ 32 - 128\<close> bytes the claim holds (lemma
  \<open>FindSlot_optimal_below_wrap\<close>).
\<close>

theorem FindSlot_misses_optimal_row:
  "row_sizes example_env undersized_page = [1000, 3, 4294967295] \<and>
   fits_optimal 4294967295 4294967295 \<and>
   FindSlot example_env undersized_page 4294967295
     = Some (1, undersized_page\<lparr>sizeCache := [1000, 3, 0]\<rparr>) \<and>
   \<not> fits_optimal 4294967295 3"
  by (simp add: FindSlot_undersized undersized_page_rows fits_optimal_def)

text \<open>
  C3, as amended: for every page and every \<open>minSize\<close> of at most \<open>2 ^ 32 - 128\<close> and at most
  \<open>2 ^ 32 - maxAcceptableWaste\<close>, if no row has a size of at least \<open>minSize\<close> with a waste
  below \<^verbatim>\<open>OPTIMAL_WASTE_MARGIN\<close>, or with a waste strictly below both \<open>maxAcceptableWaste\<close> and
  \<^verbatim>\<open>MAX_AVAILABLE_SIZE_DIFFERENCE\<close>, then \<^verbatim>\<open>FindSlot(minSize)\<close> does not fail and returns
  \<open>- maxSize\<close>, where \<open>maxSize\<close> is the maximum size of a row of the page: a negative value
  when some row has a size other than 0, and 0 when every row is vacant.
\<close>

theorem FindSlot_no_acceptable_row:
  assumes "page_ok E p"
    and "\<forall>s \<in> set (row_sizes E p). \<not> fits_optimal minSize s \<and> \<not> fits_acceptable E p minSize s"
    and "unat minSize + 128 \<le> 2 ^ 32"
    and "unat minSize + unat (maxAcceptableWaste p) \<le> 2 ^ 32"
  shows "\<exists>r p'. FindSlot E p minSize = Some (r, p') \<and> r \<le> 0 \<and> - r = uint (max_row_size E p) \<and>
           (\<forall>s \<in> set (row_sizes E p). s \<le> max_row_size E p) \<and>
           (max_row_size E p \<in> set (row_sizes E p) \<or> max_row_size E p = 0) \<and>
           (r < 0 \<longleftrightarrow> (\<exists>s \<in> set (row_sizes E p). s \<noteq> 0))"
proof -
  have "\<forall>s \<in> set (row_sizes E p). rejected E p minSize s"
    using assms(2-4) by (auto intro: rejected_row)
  from FindSlot_rejected[OF assms(1) this] obtain p'
    where f: "FindSlot E p minSize = Some (- uint (max_row_size E p), p')" by blast
  have neg: "(- uint (max_row_size E p) < 0) \<longleftrightarrow> (\<exists>s \<in> set (row_sizes E p). s \<noteq> 0)"
  proof
    assume "- uint (max_row_size E p) < 0"
    then have "max_row_size E p \<noteq> 0" by auto
    with max_row_size_max(2)[of E p] show "\<exists>s \<in> set (row_sizes E p). s \<noteq> 0" by auto
  next
    assume "\<exists>s \<in> set (row_sizes E p). s \<noteq> 0"
    then obtain s where "s \<in> set (row_sizes E p)" "s \<noteq> 0" by blast
    with max_row_size_max(1)[of E p] have "max_row_size E p \<noteq> 0" by auto
    then have "uint (max_row_size E p) \<noteq> 0" by (simp add: unsigned_eq_0_iff)
    moreover have "0 \<le> uint (max_row_size E p)" by simp
    ultimately have "0 < uint (max_row_size E p)" by linarith
    then show "- uint (max_row_size E p) < 0" by simp
  qed
  from f neg max_row_size_max[of E p] show ?thesis by auto
qed

theorem FindSlot_no_acceptable_row_witness:
  "page_ok example_env example_page \<and>
   list_all (\<lambda>s. \<not> fits_optimal 600 s \<and> \<not> fits_acceptable example_env example_page 600 s)
     (row_sizes example_env example_page) \<and>
   unat (600 :: uint32) + 128 \<le> 2 ^ 32 \<and>
   unat (600 :: uint32) + unat (maxAcceptableWaste example_page) \<le> 2 ^ 32 \<and>
   (\<exists>p'. FindSlot example_env example_page 600 = Some (- 500, p'))"
proof -
  have 1: "page_ok example_env example_page" by (rule example_page_ok)
  have 2: "list_all (\<lambda>s. \<not> fits_optimal 600 s \<and> \<not> fits_acceptable example_env example_page 600 s)
     (row_sizes example_env example_page)"
    by (simp add: example_row_sizes fits_optimal_def fits_acceptable_def)
  then have all2: "\<forall>s \<in> set (row_sizes example_env example_page).
      \<not> fits_optimal 600 s \<and> \<not> fits_acceptable example_env example_page 600 s"
    by (simp add: list_all_iff)
  have 3: "unat (600 :: uint32) + 128 \<le> 2 ^ 32" by simp
  have 4: "unat (600 :: uint32) + unat (maxAcceptableWaste example_page) \<le> 2 ^ 32"
    by (simp add: example_page_def)
  have 5: "max_row_size example_env example_page = 500"
    by (simp add: max_row_size_def example_row_sizes)
  from FindSlot_no_acceptable_row[OF 1 all2 3 4] 5
  have "\<exists>p'. FindSlot example_env example_page 600 = Some (- 500, p')" by auto
  with 1 2 3 4 show ?thesis by blast
qed

text \<open>
  C3 as stated does not hold: on a page whose rows are all vacant no row is acceptable for
  a request of 1 byte, and \<^verbatim>\<open>FindSlot(1)\<close> returns \<open>- maxSize = 0\<close>, which is not negative.
\<close>

theorem FindSlot_vacant_page_counterexample:
  "row_sizes example_env vacant_page = [0, 0] \<and>
   \<not> fits_acceptable example_env vacant_page 1 0 \<and>
   max_row_size example_env vacant_page = 0 \<and>
   FindSlot example_env vacant_page 1 = Some (0, vacant_page) \<and> \<not> (0 :: int) < 0"
  by (simp add: vacant_page_rows fits_acceptable_def max_row_size_def FindSlot_vacant)

text \<open>
  The optimal margin comes first: on the example page, of 68 bytes, \<open>maxAcceptableWaste\<close>
  is 17; for a request of 20 bytes no row has a waste below 17, and \<^verbatim>\<open>FindSlot\<close> returns
  row 2, of size 50, whose waste of 30 is below the optimal margin.
\<close>

lemma FindSlot_optimal_above_acceptable:
  "list_all (\<lambda>s. \<not> fits_acceptable example_env example_page 20 s)
     (row_sizes example_env example_page) \<and>
   map_option fst (FindSlot example_env example_page 20) = Some 2"
  by (simp add: example_row_sizes fits_acceptable_def FindSlot_example_20)
     (simp add: example_page_def)

text \<open>
  C4: for every row offset \<open>r\<close> and every 32-bit value \<open>s\<close>, \<^verbatim>\<open>SetFreeSlotSize(r, s)\<close> followed
  by \<^verbatim>\<open>FreeSlotSize(r)\<close> on the same page returns \<open>s\<close>, and so does \<^verbatim>\<open>FreeSlotSize(r)\<close> after
  any further calls that do not write the size of that row: calls of any method in range
  of the page other than \<^verbatim>\<open>SetFreeSlotSize\<close> on the row, and \<^verbatim>\<open>AllocateSlotInfo\<close> and
  \<^verbatim>\<open>ReleaseSlotInfo\<close> on the row, which call it.
\<close>

theorem SetFreeSlotSize_roundtrip:
  assumes "page_ok E p" and "is_row_offset E p r"
  shows "\<exists>p1. SetFreeSlotSize E p r s = Some p1 \<and>
           (\<exists>p2. FreeSlotSize E p1 r = Some (s, p2)) \<and>
           (\<forall>cs. list_all (in_range E p) cs \<and>
                 list_all (\<lambda>c. written_row E c \<noteq> Some (offsetToSlotinfo E r)) cs \<longrightarrow>
              (\<exists>p2 p3. run E p1 cs = Some p2 \<and> FreeSlotSize E p2 r = Some (s, p3)))"
proof -
  define i where "i = offsetToSlotinfo E r"
  define p1 where "p1 = set_size E p (unat i) s"
  have i: "i < maxSlots p" and r: "slotinfoToOffset E i = r"
    using is_row_offsetD[OF assms(2)] by (simp_all add: i_def)
  have lt: "unat i < unat (maxSlots p)" using i by (simp add: word_less_nat_alt)
  note ok1 = set_size_ok[OF assms(1) lt, of s, folded p1_def]
  note rows1 = set_size_rows[OF assms(1) lt, of s, folded p1_def]
  have set: "SetFreeSlotSize E p r s = Some p1"
    using SetFreeSlotSize_row[OF assms(1) i, of s] by (simp add: r p1_def)
  have size1: "row_size E (Record p1) (unat i) = s" by (simp add: rows1(1))
  have read: "\<exists>p3. FreeSlotSize E q r = Some (s, p3)"
    if "page_ok E q" "maxSlots q = maxSlots p1" "row_size E (Record q) (unat i) = s" for q
  proof -
    have "i < maxSlots q" using i that(2) by (simp add: rows1(4))
    from FreeSlotSize_row_value[OF that(1) this] that(3) show ?thesis by (simp add: r)
  qed
  have later: "\<exists>p2 p3. run E p1 cs = Some p2 \<and> FreeSlotSize E p2 r = Some (s, p3)"
    if "list_all (in_range E p) cs" "list_all (\<lambda>c. written_row E c \<noteq> Some i) cs" for cs
  proof -
    from run_keeps_row[OF ok1 rows1(4) that] obtain q
      where "run E p1 cs = Some q" "page_ok E q" "maxSlots q = maxSlots p1"
        "row_size E (Record q) (unat i) = row_size E (Record p1) (unat i)" by blast
    with read[of q] size1 show ?thesis by auto
  qed
  from set read[OF ok1 refl size1] later show ?thesis unfolding i_def by blast
qed

theorem SetFreeSlotSize_roundtrip_witness:
  "page_ok example_env example_page \<and> is_row_offset example_env example_page 32 \<and>
   (\<exists>p1. SetFreeSlotSize example_env example_page 32 4294967295 = Some p1 \<and>
      (\<exists>p2. FreeSlotSize example_env p1 32 = Some (4294967295, p2)) \<and>
      (\<exists>p2 p3. run example_env p1
           [Call_FindSlot 40, Call_FreeSlotSize 32, Call_SetFreeSlotSize 44 7,
            Call_AllocateSlotInfo 0, Call_FirstFreeSlotInfo] = Some p2 \<and>
         FreeSlotSize example_env p2 32 = Some (4294967295, p3)))"
proof -
  let ?cs = "[Call_FindSlot 40, Call_FreeSlotSize 32, Call_SetFreeSlotSize 44 7,
            Call_AllocateSlotInfo 0, Call_FirstFreeSlotInfo]"
  have 1: "page_ok example_env example_page" by (rule example_page_ok)
  have 2: "is_row_offset example_env example_page 32" by (rule example_is_row_offset)
  have 3: "list_all (in_range example_env example_page) ?cs"
    by (simp add: example_is_row_offset) (simp add: example_page_def)
  have 4: "list_all (\<lambda>c. written_row example_env c \<noteq> Some (offsetToSlotinfo example_env 32)) ?cs"
    by (simp add: example_row_offsets)
  from SetFreeSlotSize_roundtrip[OF 1 2, of 4294967295] 1 2 3 4 show ?thesis by blast
qed




text \<open>
  C6: for every vacant row \<open>i\<close>, \<^verbatim>\<open>AllocateSlotInfo(i)\<close> and then \<^verbatim>\<open>ReleaseSlotInfo(i)\<close> restore
  \<^verbatim>\<open>FreeSlotCount()\<close> to its value before the two calls and leave the size of the row 0.
\<close>

theorem Allocate_then_Release_restores:
  assumes "page_ok E p" and "i < maxSlots p" and "row_size E (Record p) (unat i) = 0"
    and "FreeSlotCount E p = Some c"
  shows "\<exists>p1 p2. AllocateSlotInfo E p i = Some (slotinfoToOffset E i, p1) \<and>
           ReleaseSlotInfo E p1 i = Some (slotinfoToOffset E i, p2) \<and>
           FreeSlotCount E p2 = Some c \<and>
           row_size E (Record p2) (unat i) = 0 \<and>
           (\<exists>p3. FreeSlotSize E p2 (slotinfoToOffset E i) = Some (0, p3))"
proof -
  define p1 where "p1 = mark_row E p (unat i) 1 (util_PackLocation E 1 1) (row_count E (Record p) + 1)"
  define p2 where "p2 = mark_row E p1 (unat i) 0 (util_PackLocation E 0 0) (row_count E (Record p1) - 1)"
  have lt: "unat i < unat (maxSlots p)" using assms(2) by (simp add: word_less_nat_alt)
  note ok1 = mark_row_ok[OF assms(1) lt, of 1 "util_PackLocation E 1 1" "row_count E (Record p) + 1",
      folded p1_def]
  note rows1 = mark_row_rows[OF assms(1) lt, of 1 "util_PackLocation E 1 1" "row_count E (Record p) + 1",
      folded p1_def]
  have i1: "i < maxSlots p1" using assms(2) by (simp add: rows1(4))
  have lt1: "unat i < unat (maxSlots p1)" using lt by (simp add: rows1(4))
  note ok2 = mark_row_ok[OF ok1 lt1, of 0 "util_PackLocation E 0 0" "row_count E (Record p1) - 1",
      folded p2_def]
  note rows2 = mark_row_rows[OF ok1 lt1, of 0 "util_PackLocation E 0 0" "row_count E (Record p1) - 1",
      folded p2_def]
  have i2: "i < maxSlots p2" using i1 by (simp add: rows2(4))
  have c: "row_count E (Record p) = c"
    using assms(4) FreeSlotCount_ok[OF assms(1)] by simp
  have count: "FreeSlotCount E p2 = Some c"
    by (simp add: FreeSlotCount_ok[OF ok2] rows2(3) rows1(3) c)
  have size: "row_size E (Record p2) (unat i) = 0" by (simp add: rows2(1))
  from FreeSlotSize_row_value[OF ok2 i2] size
  have read: "\<exists>p3. FreeSlotSize E p2 (slotinfoToOffset E i) = Some (0, p3)" by simp
  from AllocateSlotInfo_row[OF assms(1,2), folded p1_def] ReleaseSlotInfo_row[OF ok1 i1, folded p2_def]
    count size read
  show ?thesis by blast
qed

theorem Allocate_then_Release_restores_witness:
  "page_ok example_env example_page \<and> 0 < maxSlots example_page \<and>
   row_size example_env (Record example_page) (unat (0 :: uint16)) = 0 \<and>
   FreeSlotCount example_env example_page = Some 3 \<and>
   (\<exists>p1 p2. AllocateSlotInfo example_env example_page 0 = Some (slotinfoToOffset example_env 0, p1) \<and>
      ReleaseSlotInfo example_env p1 0 = Some (slotinfoToOffset example_env 0, p2) \<and>
      FreeSlotCount example_env p2 = Some 3 \<and>
      row_size example_env (Record p2) (unat (0 :: uint16)) = 0 \<and>
      (\<exists>p3. FreeSlotSize example_env p2 (slotinfoToOffset example_env 0) = Some (0, p3)))"
proof -
  have 1: "page_ok example_env example_page" by (rule example_page_ok)
  have 2: "0 < maxSlots example_page" by (simp add: example_page_def)
  have 3: "row_size example_env (Record example_page) (unat (0 :: uint16)) = 0"
    by (rule example_vacant_rows)
  have 4: "FreeSlotCount example_env example_page = Some 3" by (rule example_counts)
  from Allocate_then_Release_restores[OF 1 2 3 4] 1 2 3 4 show ?thesis by blast
qed

text \<open>
  C7: \<^verbatim>\<open>FirstFreeSlotInfo()\<close> returns the smallest row index whose size field is 0, or \<open>-1\<close>
  when every row from 0 to \<open>maxSlots - 1\<close> is in use.
\<close>

theorem FirstFreeSlotInfo_first_vacant:
  assumes "page_ok E p"
  shows "\<exists>r p'. FirstFreeSlotInfo E p = Some (r, p') \<and>
           ((r = - 1 \<and> (\<forall>j < unat (maxSlots p). row_size E (Record p) j \<noteq> 0)) \<or>
            (\<exists>k < unat (maxSlots p). r = int k \<and> row_size E (Record p) k = 0 \<and>
               (\<forall>j < k. row_size E (Record p) j \<noteq> 0)))"
proof -
  from FirstFreeSlotInfo_loop_ok[OF assms, of 0] obtain p'
    where "FirstFreeSlotInfo E p = Some (first_vacant E p 0, p')"
    unfolding FirstFreeSlotInfo_def by auto
  with first_vacant_cases[of E p] show ?thesis by blast
qed

theorem FirstFreeSlotInfo_first_vacant_witness:
  "page_ok example_env undersized_page \<and> page_ok example_env example_page \<and>
   (\<exists>p'. FirstFreeSlotInfo example_env undersized_page = Some (- 1, p')) \<and>
   (\<exists>p'. FirstFreeSlotInfo example_env example_page = Some (0, p'))"
proof -
  have 1: "page_ok example_env undersized_page"
    by (simp add: page_ok_def env_ok_def cache_entry_ok_def undersized_page_def example_consts)
  have 2: "page_ok example_env example_page" by (rule example_page_ok)
  have full: "\<not> (\<exists>k < unat (maxSlots undersized_page).
      row_size example_env (Record undersized_page) k = 0)"
  proof -
    have "0 \<notin> set (row_sizes example_env undersized_page)"
      by (simp add: undersized_page_rows)
    then show ?thesis by (auto simp: row_sizes_def)
  qed
  have first: "row_size example_env (Record example_page) 0 = 0"
    using example_vacant_rows(1) by simp
  from FirstFreeSlotInfo_first_vacant[OF 1] full
  have a: "\<exists>p'. FirstFreeSlotInfo example_env undersized_page = Some (- 1, p')" by auto
  from FirstFreeSlotInfo_first_vacant[OF 2] obtain r p' k
    where f: "FirstFreeSlotInfo example_env example_page = Some (r, p')"
      and "(r = - 1 \<and> (\<forall>j < unat (maxSlots example_page).
              row_size example_env (Record example_page) j \<noteq> 0)) \<or>
           (k < unat (maxSlots example_page) \<and> r = int k \<and>
              (\<forall>j < k. row_size example_env (Record example_page) j \<noteq> 0))"
    by blast
  with first have "r = 0" by (cases "k = 0") (auto simp: example_page_def)
  with f a 1 2 show ?thesis by blast
qed

text \<open>
  C8, as amended: the 16-bit count in the header is the number of rows whose size field is
  not 0, and every sequence of calls keeps it so in which \<^verbatim>\<open>AllocateSlotInfo\<close> is called
  only on rows whose size is 0, \<^verbatim>\<open>ReleaseSlotInfo\<close> only on rows whose size is not 0, and
  \<^verbatim>\<open>SetFreeSlotSize\<close> only on rows whose size is not 0 and with a size other than 0; the calls
  name rows of the page. Only the calls that claim or release a row change the count.
\<close>

theorem count_invariant_preserved:
  assumes "page_ok E p" and "count_ok E p" and "admissible E p cs"
  shows "(\<exists>p'. run E p cs = Some p' \<and> page_ok E p' \<and> count_ok E p') \<and>
         (\<forall>c p1. in_range E p c \<and> \<not> claims_or_releases c \<and> exec E p c = Some p1 \<longrightarrow>
            FreeSlotCount E p1 = FreeSlotCount E p)"
proof
  show "\<exists>p'. run E p cs = Some p' \<and> page_ok E p' \<and> count_ok E p'"
    by (rule run_count_ok[OF assms])
  show "\<forall>c p1. in_range E p c \<and> \<not> claims_or_releases c \<and> exec E p c = Some p1 \<longrightarrow>
            FreeSlotCount E p1 = FreeSlotCount E p"
  proof (intro allI impI)
    fix c p1
    assume a: "in_range E p c \<and> \<not> claims_or_releases c \<and> exec E p c = Some p1"
    with exec_effect[OF assms(1), of c] have "page_ok E p1"
      and "row_count E (Record p1) = row_count E (Record p)" by auto
    then show "FreeSlotCount E p1 = FreeSlotCount E p"
      by (simp add: FreeSlotCount_ok assms(1))
  qed
qed

theorem count_invariant_preserved_witness:
  "page_ok example_env example_page \<and> count_ok example_env example_page \<and>
   admissible example_env example_page
     [Call_FindSlot 40, Call_AllocateSlotInfo 0, Call_ReleaseSlotInfo 1] \<and>
   (\<exists>p'. run example_env example_page
        [Call_FindSlot 40, Call_AllocateSlotInfo 0, Call_ReleaseSlotInfo 1] = Some p' \<and>
      page_ok example_env p' \<and> count_ok example_env p')"
proof -
  define q1 where "q1 = example_page\<lparr>sizeCache := [0, 500, 50, 0]\<rparr>"
  define q2 where "q2 = mark_row example_env q1 (unat (0 :: uint16)) 1
     (util_PackLocation example_env 1 1) (row_count example_env (Record q1) + 1)"
  define q3 where "q3 = mark_row example_env q2 (unat (1 :: uint16)) 0
     (util_PackLocation example_env 0 0) (row_count example_env (Record q2) - 1)"
  have ok0: "page_ok example_env example_page" by (rule example_page_ok)
  have c0: "count_ok example_env example_page"
    by (simp add: count_ok_def rows_in_use_def example_row_sizes)
       (simp add: example_page_def example_consts)
  have ok1: "page_ok example_env q1"
    by (simp add: q1_def page_ok_def env_ok_def cache_entry_ok_def example_page_def example_consts)
  have m1: "maxSlots q1 = 4" by (simp add: q1_def example_page_def)
  have lt1: "unat (0 :: uint16) < unat (maxSlots q1)" by (simp add: m1)
  note ok2 = mark_row_ok[OF ok1 lt1, of 1 "util_PackLocation example_env 1 1"
      "row_count example_env (Record q1) + 1", folded q2_def]
  note rows2 = mark_row_rows[OF ok1 lt1, of 1 "util_PackLocation example_env 1 1"
      "row_count example_env (Record q1) + 1", folded q2_def]
  have e1: "exec example_env example_page (Call_FindSlot 40) = Some q1"
    by (simp add: FindSlot_example_40 q1_def)
  have pre1: "pre example_env example_page (Call_FindSlot 40)" by simp
  have pre2: "pre example_env q1 (Call_AllocateSlotInfo 0)"
    by (simp add: q1_def example_page_def example_consts)
  have e2: "exec example_env q1 (Call_AllocateSlotInfo 0) = Some q2"
    using AllocateSlotInfo_row[OF ok1, of 0] by (simp add: m1 q2_def)
  have "row_size example_env (Record q2) (unat (1 :: uint16))
      = row_size example_env (Record q1) (unat (1 :: uint16))"
    by (simp add: rows2(1))
  then have pre3: "pre example_env q2 (Call_ReleaseSlotInfo 1)"
    by (simp add: rows2(4) m1) (simp add: q1_def example_page_def example_consts)
  have e3: "exec example_env q2 (Call_ReleaseSlotInfo 1) = Some q3"
    using ReleaseSlotInfo_row[OF ok2, of 1] by (simp add: rows2(4) m1 q3_def)
  have adm: "admissible example_env example_page
     [Call_FindSlot 40, Call_AllocateSlotInfo 0, Call_ReleaseSlotInfo 1]"
    by (simp add: pre1 e1 pre2 e2 pre3 e3 del: exec.simps pre.simps)
  from count_invariant_preserved[OF ok0 c0 adm] ok0 c0 adm show ?thesis by blast
qed

text \<open>
  C8 as stated does not hold for every sequence of calls that meets the two conditions on
  \<^verbatim>\<open>AllocateSlotInfo\<close> and \<^verbatim>\<open>ReleaseSlotInfo\<close>: \<^verbatim>\<open>SetFreeSlotSize\<close> with size 0 on a row in use
  makes the row vacant and leaves the count as it is. On the example page, three rows in
  use and the count 3, the call on row 1 leaves two rows in use and the count 3.
\<close>

theorem count_invariant_counterexample:
  "page_ok example_env example_page \<and> count_ok example_env example_page \<and>
   run example_env example_page [Call_SetFreeSlotSize 32 0]
     = Some (set_size example_env example_page 1 0) \<and>
   \<not> count_ok example_env (set_size example_env example_page 1 0)"
proof -
  define q where "q = set_size example_env example_page (unat (1 :: uint16)) 0"
  have ok0: "page_ok example_env example_page" by (rule example_page_ok)
  have c0: "count_ok example_env example_page"
    by (simp add: count_ok_def rows_in_use_def example_row_sizes)
       (simp add: example_page_def example_consts)
  have i: "1 < maxSlots example_page" by (simp add: example_page_def)
  have lt: "unat (1 :: uint16) < unat (maxSlots example_page)" by (simp add: example_page_def)
  note rows = set_size_rows[OF ok0 lt, of 0, folded q_def]
  have "SetFreeSlotSize example_env example_page (slotinfoToOffset example_env 1) 0 = Some q"
    unfolding q_def by (rule SetFreeSlotSize_row[OF ok0 i])
  then have r: "run example_env example_page [Call_SetFreeSlotSize 32 0] = Some q"
    by (simp add: example_row_offsets)
  have "row_sizes example_env q = (row_sizes example_env example_page)[unat (1 :: uint16) := 0]"
    by (rule row_sizes_update[OF rows(4)]) (simp add: rows(1))
  then have "rows_in_use example_env q = 2"
    by (simp add: rows_in_use_def example_row_sizes)
  moreover have "unat (row_count example_env (Record q)) = 3"
    by (simp add: rows(3)) (simp add: example_page_def example_consts)
  ultimately have "\<not> count_ok example_env q" by (simp add: count_ok_def)
  with ok0 c0 r show ?thesis by (simp add: q_def)
qed

text \<open>
  C9: on a page whose header count \<^verbatim>\<open>FreeSlotCount()\<close> is 0, \<^verbatim>\<open>ReleaseSlotInfo\<close> on any row
  sets the count to 65535: the 16-bit decrement wraps around, it neither fails nor stops
  at 0.
\<close>

theorem ReleaseSlotInfo_count_wraps:
  assumes "page_ok E p" and "i < maxSlots p" and "FreeSlotCount E p = Some 0"
  shows "\<exists>p'. ReleaseSlotInfo E p i = Some (slotinfoToOffset E i, p') \<and>
              FreeSlotCount E p' = Some 65535"
proof -
  let ?p' = "mark_row E p (unat i) 0 (util_PackLocation E 0 0) (row_count E (Record p) - 1)"
  have lt: "unat i < unat (maxSlots p)" using assms(2) by (simp add: word_less_nat_alt)
  have c: "row_count E (Record p) = 0"
    using assms(3) FreeSlotCount_ok[OF assms(1)] by simp
  have "FreeSlotCount E ?p' = Some (row_count E (Record ?p'))"
    by (rule FreeSlotCount_ok[OF mark_row_ok[OF assms(1) lt]])
  then have "FreeSlotCount E ?p' = Some 65535"
    by (simp add: mark_row_rows(3)[OF assms(1) lt] c)
  with ReleaseSlotInfo_row[OF assms(1,2)] show ?thesis by blast
qed

theorem ReleaseSlotInfo_count_wraps_witness:
  "page_ok example_env vacant_page \<and> 1 < maxSlots vacant_page \<and>
   FreeSlotCount example_env vacant_page = Some 0 \<and>
   (\<exists>p'. ReleaseSlotInfo example_env vacant_page 1 = Some (slotinfoToOffset example_env 1, p') \<and>
         FreeSlotCount example_env p' = Some 65535)"
proof -
  have 1: "page_ok example_env vacant_page" by (rule vacant_page_ok)
  have 2: "1 < maxSlots vacant_page" by (simp add: vacant_page_def)
  have 3: "FreeSlotCount example_env vacant_page = Some 0"
    by (simp add: FreeSlotCount_def ReadUInt16_def vacant_page_def example_consts)
  from ReleaseSlotInfo_count_wraps[OF 1 2 3] 1 2 3 show ?thesis by blast
qed

text \<open>
  C10: \<^verbatim>\<open>FindSlot(minSize)\<close> leaves the bytes of the record unchanged, and with them
  \<^verbatim>\<open>FreeSlotCount()\<close> and the size and location of every row; of the page it changes the
  cache only, where an entry that was 0 may become the size stored in its row. On a
  well-formed page the call returns, and every entry of the cache is afterwards what it
  was before or the size on disk of its row.
\<close>

theorem FindSlot_frame:
  "(FindSlot E p minSize = Some (r, p') \<longrightarrow>
      Record p' = Record p \<and> FreeSlotCount E p' = FreeSlotCount E p \<and>
      (\<forall>j. row_size E (Record p') j = row_size E (Record p) j \<and>
           row_location E (Record p') j = row_location E (Record p) j) \<and>
      maxSlots p' = maxSlots p \<and> maxAcceptableWaste p' = maxAcceptableWaste p \<and>
      length (sizeCache p') = length (sizeCache p) \<and>
      (\<forall>j < length (sizeCache p). sizeCache p ! j \<noteq> 0 \<longrightarrow> sizeCache p' ! j = sizeCache p ! j)) \<and>
   (page_ok E p \<longrightarrow>
      (\<exists>r p'. FindSlot E p minSize = Some (r, p') \<and>
         (\<forall>j < unat (maxSlots p).
            sizeCache p' ! j = sizeCache p ! j \<or>
            sizeCache p' ! j = row_size E (Record p) j)))"
proof (intro conjI impI)
  assume f: "FindSlot E p minSize = Some (r, p')"
  then have c: "cache_only p p'"
    unfolding FindSlot_def by (rule FindSlot_loop_cache_only)
  then have "Record p' = Record p" by (simp add: cache_only_def)
  with c show "Record p' = Record p" "FreeSlotCount E p' = FreeSlotCount E p"
    "\<forall>j. row_size E (Record p') j = row_size E (Record p) j \<and>
         row_location E (Record p') j = row_location E (Record p) j"
    "maxSlots p' = maxSlots p" "maxAcceptableWaste p' = maxAcceptableWaste p"
    "length (sizeCache p') = length (sizeCache p)"
    "\<forall>j < length (sizeCache p). sizeCache p ! j \<noteq> 0 \<longrightarrow> sizeCache p' ! j = sizeCache p ! j"
    by (simp_all add: cache_only_def FreeSlotCount_def)
next
  assume ok: "page_ok E p"
  from FindSlot_loop_ok[OF ok, of minSize 0 "- 1" "maxAcceptableWaste p + 1" 0] obtain r p'
    where f: "FindSlot E p minSize = Some (r, p')" and ok': "page_ok E p'"
    unfolding FindSlot_def by blast
  from f have c: "cache_only p p'"
    unfolding FindSlot_def by (rule FindSlot_loop_cache_only)
  have "sizeCache p' ! j = sizeCache p ! j \<or> sizeCache p' ! j = row_size E (Record p) j"
    if "j < unat (maxSlots p)" for j
  proof (cases "sizeCache p ! j = 0")
    case True
    from that c have "j < unat (maxSlots p')" by (simp add: cache_only_def)
    from page_ok_cache[OF ok' this] c True show ?thesis
      by (auto simp: cache_entry_ok_def cache_only_def)
  next
    case False
    moreover from that ok have "j < length (sizeCache p)" by (simp add: page_ok_def)
    ultimately show ?thesis using c by (simp add: cache_only_def)
  qed
  with f show "\<exists>r p'. FindSlot E p minSize = Some (r, p') \<and>
         (\<forall>j < unat (maxSlots p).
            sizeCache p' ! j = sizeCache p ! j \<or>
            sizeCache p' ! j = row_size E (Record p) j)"
    by blast
qed

theorem FindSlot_frame_witness:
  "page_ok example_env example_page \<and>
   FindSlot example_env example_page 40 = Some (2, example_page\<lparr>sizeCache := [0, 500, 50, 0]\<rparr>) \<and>
   Record (example_page\<lparr>sizeCache := [0, 500, 50, 0]\<rparr>) = Record example_page \<and>
   FreeSlotCount example_env (example_page\<lparr>sizeCache := [0, 500, 50, 0]\<rparr>)
     = FreeSlotCount example_env example_page \<and>
   (\<exists>r p'. FindSlot example_env example_page 40 = Some (r, p') \<and>
      list_all (\<lambda>j. sizeCache p' ! j = sizeCache example_page ! j \<or>
                    sizeCache p' ! j = row_size example_env (Record example_page) j)
        [0..<unat (maxSlots example_page)])"
proof -
  have 1: "page_ok example_env example_page" by (rule example_page_ok)
  note 2 = FindSlot_example_40
  from FindSlot_frame[of example_env example_page 40 2 "example_page\<lparr>sizeCache := [0, 500, 50, 0]\<rparr>"] 1 2
  show ?thesis by (simp add: list_all_iff)
qed

end
